theory Spec2Isabelle
  imports Complex_Main "HOL-Library.Multiset" "HOL-Library.AList" "HOL-Library.Word"
begin

section \<open>Nearest-centroid pipeline: data model\<close>

text \<open>
  The scripts work on numpy arrays of one axis, of two element types.  The vector of an
  image is stored as \<open>uint8\<close> (the flattened pixel tensor), a centroid as \<open>float64\<close> (the
  output of \<open>np.mean\<close>).  An operation on two \<open>uint8\<close> arrays stays in \<open>uint8\<close> and wraps
  modulo 256; an operation with a \<open>float64\<close> operand promotes the other operand to
  \<open>float64\<close>.  Arithmetic on \<open>float64\<close> is exact real arithmetic; its rounding is not
  part of the model.
\<close>

type_synonym vec = "real list"

datatype ndarray = U8 "8 word list" | F64 "real list"

definition as_float :: "ndarray \<Rightarrow> vec" where
  "as_float a = (case a of U8 ws \<Rightarrow> map (\<lambda>w. real (unat w)) ws | F64 xs \<Rightarrow> xs)"

definition both_u8 :: "ndarray \<Rightarrow> ndarray \<Rightarrow> bool" where
  "both_u8 v1 v2 = (case v1 of U8 a \<Rightarrow> (case v2 of U8 b \<Rightarrow> True | F64 ys \<Rightarrow> False) | F64 xs \<Rightarrow> False)"

datatype py_error = ValueError | IndexError | KeyError | ZeroDivisionError | DivideByZero

text \<open>
  \<open>ValueError\<close>, \<open>IndexError\<close>, \<open>KeyError\<close> and \<open>ZeroDivisionError\<close> are the Python
  exceptions of those names.  \<open>DivideByZero\<close> stands for a numpy scalar division whose
  denominator is zero: numpy answers with \<open>inf\<close> or \<open>nan\<close> and a RuntimeWarning, for
  which the reals have no value.
\<close>

datatype cls = pizza_slice | whole_pizza | pizza_box

definition CLASSES :: "cls list" where
  "CLASSES = [pizza_slice, whole_pizza, pizza_box]"

fun class_name :: "cls \<Rightarrow> string" where
  "class_name pizza_slice = ''pizza_slice''"
| "class_name whole_pizza = ''whole_pizza''"
| "class_name pizza_box = ''pizza_box''"

datatype metric = Euclidean | Manhattan | Cosine

definition METRICS :: "metric list" where
  "METRICS = [Euclidean, Manhattan, Cosine]"

section \<open>numpy primitives used by the distance functions\<close>

text \<open>
  An element-wise operation on arrays of one axis: element by element when the lengths
  agree, broadcast when one operand has length 1, ValueError otherwise.
\<close>

definition broadcast :: "('a \<Rightarrow> 'a \<Rightarrow> 'a) \<Rightarrow> 'a list \<Rightarrow> 'a list \<Rightarrow> py_error + 'a list" where
  "broadcast f v1 v2 =
     (if length v1 = length v2 then Inr (map2 f v1 v2)
      else (case (v1, v2) of
              ([a], _) \<Rightarrow> Inr (map (\<lambda>b. f a b) v2)
            | (_, [b]) \<Rightarrow> Inr (map (\<lambda>a. f a b) v1)
            | _ \<Rightarrow> Inl ValueError))"

text \<open>\<open>v1 - v2\<close>: in \<open>uint8\<close>, wrapping, when both operands are \<open>uint8\<close>; in \<open>float64\<close> otherwise.\<close>

definition np_sub :: "ndarray \<Rightarrow> ndarray \<Rightarrow> py_error + ndarray" where
  "np_sub v1 v2 =
     (case v1 of
        U8 a \<Rightarrow>
          (case v2 of
             U8 b \<Rightarrow> (case broadcast (-) a b of Inl e \<Rightarrow> Inl e | Inr d \<Rightarrow> Inr (U8 d))
           | F64 ys \<Rightarrow>
               (case broadcast (-) (as_float v1) ys of Inl e \<Rightarrow> Inl e | Inr d \<Rightarrow> Inr (F64 d)))
      | F64 xs \<Rightarrow>
          (case broadcast (-) xs (as_float v2) of Inl e \<Rightarrow> Inl e | Inr d \<Rightarrow> Inr (F64 d)))"

text \<open>\<open>v ** 2\<close> keeps the element type: the square of a \<open>uint8\<close> wraps.\<close>

definition np_square :: "ndarray \<Rightarrow> ndarray" where
  "np_square v = (case v of U8 ws \<Rightarrow> U8 (map (\<lambda>w. w ^ 2) ws) | F64 xs \<Rightarrow> F64 (map (\<lambda>a. a ^ 2) xs))"

definition np_abs :: "ndarray \<Rightarrow> ndarray" where
  "np_abs v = (case v of U8 ws \<Rightarrow> U8 ws | F64 xs \<Rightarrow> F64 (map abs xs))"

text \<open>\<open>np.sum\<close> adds \<open>uint8\<close> elements in \<open>uint64\<close>.\<close>

definition np_sum :: "ndarray \<Rightarrow> real" where
  "np_sum v =
     (case v of
        U8 ws \<Rightarrow> real (sum_list (map unat ws) mod 2 ^ 64)
      | F64 xs \<Rightarrow> sum_list xs)"

text \<open>
  \<open>np.dot\<close> on two arrays of one axis does not broadcast: the lengths must agree.  On
  two \<open>uint8\<close> arrays the products and their sum are \<open>uint8\<close>.
\<close>

definition np_dot :: "ndarray \<Rightarrow> ndarray \<Rightarrow> py_error + real" where
  "np_dot v1 v2 =
     (if length (as_float v1) \<noteq> length (as_float v2) then Inl ValueError
      else (case v1 of
              U8 a \<Rightarrow>
                (case v2 of
                   U8 b \<Rightarrow> Inr (real (unat (sum_list (map2 (*) a b))))
                 | F64 ys \<Rightarrow> Inr (sum_list (map2 (*) (as_float v1) ys)))
            | F64 xs \<Rightarrow> Inr (sum_list (map2 (*) xs (as_float v2)))))"

text \<open>\<open>np.linalg.norm\<close> converts an integer array to \<open>float64\<close> first.\<close>

definition np_linalg_norm :: "ndarray \<Rightarrow> real" where
  "np_linalg_norm v = sqrt (sum_list (map (\<lambda>a. a ^ 2) (as_float v)))"

definition np_divide :: "real \<Rightarrow> real \<Rightarrow> py_error + real" where
  "np_divide a b = (if b = 0 then Inl DivideByZero else Inr (a / b))"

section \<open>Distance functions (04_evaluate_distance.py)\<close>

definition d_euclidean :: "ndarray \<Rightarrow> ndarray \<Rightarrow> py_error + real" where
  "d_euclidean v1 v2 =
     (case np_sub v1 v2 of Inl e \<Rightarrow> Inl e | Inr d \<Rightarrow> Inr (sqrt (np_sum (np_square d))))"

definition d_manhattan :: "ndarray \<Rightarrow> ndarray \<Rightarrow> py_error + real" where
  "d_manhattan v1 v2 =
     (case np_sub v1 v2 of Inl e \<Rightarrow> Inl e | Inr d \<Rightarrow> Inr (np_sum (np_abs d)))"

definition d_cosine :: "ndarray \<Rightarrow> ndarray \<Rightarrow> py_error + real" where
  "d_cosine v1 v2 =
     (case np_dot v1 v2 of
        Inl e \<Rightarrow> Inl e
      | Inr dot_product \<Rightarrow>
          let norm_v1 = np_linalg_norm v1;
              norm_v2 = np_linalg_norm v2
          in if norm_v1 = 0 \<or> norm_v2 = 0 then Inr 1
             else (case np_divide dot_product (norm_v1 * norm_v2) of
                     Inl e \<Rightarrow> Inl e
                   | Inr similarity \<Rightarrow> Inr (1 - similarity)))"

section \<open>Centroid calculator (03_calculating_centroid.py)\<close>

text \<open>
  A class matrix is the list of its rows.  \<open>np.mean(matrix_X, axis=0)\<close> adds the rows
  element-wise and divides every column sum by the number of rows; on a matrix without
  rows numpy divides zero by zero (\<open>nan\<close> and a RuntimeWarning).  The reals have no
  \<open>nan\<close>: the model answers \<open>DivideByZero\<close> there.
\<close>

definition np_mean_axis0 :: "vec list \<Rightarrow> py_error + vec" where
  "np_mean_axis0 matrix_X =
     (case matrix_X of
        [] \<Rightarrow> Inl DivideByZero
      | r # rs \<Rightarrow> Inr (map (\<lambda>s. s / real (length matrix_X)) (foldl (map2 (+)) r rs)))"

definition TARGET_SIZE :: "nat \<times> nat" where
  "TARGET_SIZE = (32, 32)"

text \<open>
  The loop over the classes.  The first argument holds the matrix files that exist, the
  third the centroid files saved so far.  A missing matrix is reported and skipped.  The
  centroid is saved before it is reshaped to the image tensor; \<open>reshape\<close> raises
  ValueError when the vector does not have \<open>32 * 32 * 3\<close> elements, and the exception
  ends the run with the files saved so far.  The pixels of the preview image are outside
  the model.  For a matrix without rows the script saves a centroid of \<open>nan\<close> values and
  goes on; the model, which has no such vector, ends the loop there with \<open>DivideByZero\<close>
  and the files saved so far, so it says nothing of the classes after an empty matrix.
\<close>

fun calculate_and_visualize_centroids ::
  "(cls \<rightharpoonup> vec list) \<Rightarrow> cls list \<Rightarrow> (cls \<rightharpoonup> vec) \<Rightarrow> (cls \<rightharpoonup> vec) \<times> py_error option" where
  "calculate_and_visualize_centroids matrices [] saved = (saved, None)"
| "calculate_and_visualize_centroids matrices (c # cs) saved =
     (case matrices c of
        None \<Rightarrow> calculate_and_visualize_centroids matrices cs saved
      | Some matrix_X \<Rightarrow>
          (case np_mean_axis0 matrix_X of
             Inl e \<Rightarrow> (saved, Some e)
           | Inr centroid_vector \<Rightarrow>
               let saved' = saved(c \<mapsto> centroid_vector)
               in if length centroid_vector \<noteq> fst TARGET_SIZE * snd TARGET_SIZE * 3
                  then (saved', Some ValueError)
                  else calculate_and_visualize_centroids matrices cs saved'))"

section \<open>Distance evaluator (04_evaluate_distance.py)\<close>

text \<open>
  A Python dict keeps its keys in insertion order, and \<open>min\<close> walks them in that order:
  the distances of one metric are an association list, filled by \<open>AList.update\<close>
  (replace the value of a present key, append a new key at the end).
\<close>

type_synonym dist_dict = "(cls \<times> real) list"

fun compute_dists ::
  "(cls \<rightharpoonup> ndarray) \<Rightarrow> ndarray \<Rightarrow> cls list \<Rightarrow> (metric \<Rightarrow> dist_dict) \<Rightarrow> py_error + (metric \<Rightarrow> dist_dict)" where
  "compute_dists centroids x [] dists = Inr dists"
| "compute_dists centroids x (k # ks) dists =
     (case centroids k of
        None \<Rightarrow> Inl KeyError
      | Some mu_k \<Rightarrow>
          (case d_euclidean x mu_k of
             Inl e \<Rightarrow> Inl e
           | Inr de \<Rightarrow>
               let dists1 = dists(Euclidean := AList.update k de (dists Euclidean))
               in (case d_manhattan x mu_k of
                     Inl e \<Rightarrow> Inl e
                   | Inr dm \<Rightarrow>
                       let dists2 = dists1(Manhattan := AList.update k dm (dists1 Manhattan))
                       in (case d_cosine x mu_k of
                             Inl e \<Rightarrow> Inl e
                           | Inr dc \<Rightarrow>
                               compute_dists centroids x ks
                                 (dists2(Cosine := AList.update k dc (dists2 Cosine)))))))"

text \<open>
  \<open>min(d, key=d.get)\<close>: the keys are visited in order, the first one is the candidate,
  and a later key replaces the candidate only when its value is strictly smaller.  On
  an empty dict \<open>min\<close> raises ValueError.
\<close>

fun min_scan :: "'k \<times> real \<Rightarrow> ('k \<times> real) list \<Rightarrow> 'k" where
  "min_scan best [] = fst best"
| "min_scan best (kv # rest) =
     (if snd kv < snd best then min_scan kv rest else min_scan best rest)"

definition dict_min_key :: "('k \<times> real) list \<Rightarrow> py_error + 'k" where
  "dict_min_key d = (case d of [] \<Rightarrow> Inl ValueError | kv # rest \<Rightarrow> Inr (min_scan kv rest))"

record eval_row =
  Image :: string
  True_Class :: cls
  Pred_E :: cls
  Pred_M :: cls
  Pred_C :: cls
  Dist_E_Slice :: real
  Dist_E_Whole :: real
  Dist_E_Box :: real
  Dist_C_Slice :: real
  Dist_C_Whole :: real
  Dist_C_Box :: real

record eval_state =
  results :: "eval_row list"
  confusion_matrices :: "metric \<Rightarrow> cls \<Rightarrow> cls \<Rightarrow> nat"
  correct_counts :: "metric \<Rightarrow> nat"
  total_images :: nat

definition init_state :: eval_state where
  "init_state =
     \<lparr>results = [],
      confusion_matrices = (\<lambda>m t p. 0),
      correct_counts = (\<lambda>m. 0),
      total_images = 0\<rparr>"

text \<open>The argmin decision rule and the two counters, for each metric in turn.\<close>

fun decide ::
  "(metric \<Rightarrow> dist_dict) \<Rightarrow> cls \<Rightarrow> metric list \<Rightarrow> (metric \<rightharpoonup> cls) \<times> eval_state \<Rightarrow>
     py_error + ((metric \<rightharpoonup> cls) \<times> eval_state)" where
  "decide dists true_class [] ps = Inr ps"
| "decide dists true_class (m # ms) ps =
     (case dict_min_key (dists m) of
        Inl e \<Rightarrow> Inl e
      | Inr p \<Rightarrow>
          let preds = (fst ps)(m \<mapsto> p);
              st = snd ps;
              st1 = (if p = true_class
                     then st\<lparr>correct_counts := (correct_counts st)(m := correct_counts st m + 1)\<rparr>
                     else st);
              cm = confusion_matrices st1;
              st2 = st1\<lparr>confusion_matrices :=
                           cm(m := (cm m)(true_class := (cm m true_class)(p := cm m true_class p + 1)))\<rparr>
          in decide dists true_class ms (preds, st2))"

text \<open>
  The distances are \<open>np.float64\<close> scalars, and \<open>round(v, n)\<close> of one is numpy's: the
  value is scaled by \<open>10 ^ n\<close>, rounded to the nearest integer with a tie going to the even
  neighbour, and scaled back.  The rounding errors of the \<open>float64\<close> product and quotient
  are not part of the model.
\<close>

definition py_round :: "real \<Rightarrow> nat \<Rightarrow> real" where
  "py_round v n =
     (let y = v * 10 ^ n;
          f = \<lfloor>y\<rfloor>;
          r = y - of_int f
      in of_int (if r < 1 / 2 then f else if 1 / 2 < r then f + 1
                 else if even f then f else f + 1) / 10 ^ n)"

definition dict_get :: "('k \<times> 'v) list \<Rightarrow> 'k \<Rightarrow> py_error + 'v" where
  "dict_get d k = (case map_of d k of None \<Rightarrow> Inl KeyError | Some v \<Rightarrow> Inr v)"

definition pred_get :: "(metric \<rightharpoonup> cls) \<Rightarrow> metric \<Rightarrow> py_error + cls" where
  "pred_get preds m = (case preds m of None \<Rightarrow> Inl KeyError | Some p \<Rightarrow> Inr p)"

definition make_row ::
  "string \<Rightarrow> cls \<Rightarrow> (metric \<rightharpoonup> cls) \<Rightarrow> (metric \<Rightarrow> dist_dict) \<Rightarrow> py_error + eval_row" where
  "make_row filename true_class preds dists =
     (case pred_get preds Euclidean of Inl e \<Rightarrow> Inl e | Inr pe \<Rightarrow>
     (case pred_get preds Manhattan of Inl e \<Rightarrow> Inl e | Inr pm \<Rightarrow>
     (case pred_get preds Cosine of Inl e \<Rightarrow> Inl e | Inr pc \<Rightarrow>
     (case dict_get (dists Euclidean) pizza_slice of Inl e \<Rightarrow> Inl e | Inr es \<Rightarrow>
     (case dict_get (dists Euclidean) whole_pizza of Inl e \<Rightarrow> Inl e | Inr ew \<Rightarrow>
     (case dict_get (dists Euclidean) pizza_box of Inl e \<Rightarrow> Inl e | Inr eb \<Rightarrow>
     (case dict_get (dists Cosine) pizza_slice of Inl e \<Rightarrow> Inl e | Inr cs \<Rightarrow>
     (case dict_get (dists Cosine) whole_pizza of Inl e \<Rightarrow> Inl e | Inr cw \<Rightarrow>
     (case dict_get (dists Cosine) pizza_box of Inl e \<Rightarrow> Inl e | Inr cb \<Rightarrow>
        Inr \<lparr>Image = filename, True_Class = true_class,
             Pred_E = pe, Pred_M = pm, Pred_C = pc,
             Dist_E_Slice = py_round es 2, Dist_E_Whole = py_round ew 2,
             Dist_E_Box = py_round eb 2,
             Dist_C_Slice = py_round cs 4, Dist_C_Whole = py_round cw 4,
             Dist_C_Box = py_round cb 4\<rparr>)))))))))"

text \<open>The body of the loop over the files of one test folder.\<close>

definition process_file ::
  "(cls \<rightharpoonup> ndarray) \<Rightarrow> cls \<Rightarrow> string \<times> ndarray \<Rightarrow> eval_state \<Rightarrow> py_error + eval_state" where
  "process_file centroids true_class fx st =
     (let filename = fst fx;
          x = snd fx;
          st1 = st\<lparr>total_images := total_images st + 1\<rparr>
      in case compute_dists centroids x CLASSES (\<lambda>m. []) of
           Inl e \<Rightarrow> Inl e
         | Inr dists \<Rightarrow>
             (case decide dists true_class METRICS (Map.empty, st1) of
                Inl e \<Rightarrow> Inl e
              | Inr (preds, st2) \<Rightarrow>
                  (case make_row filename true_class preds dists of
                     Inl e \<Rightarrow> Inl e
                   | Inr row \<Rightarrow> Inr (st2\<lparr>results := results st2 @ [row]\<rparr>))))"

fun eval_files ::
  "(cls \<rightharpoonup> ndarray) \<Rightarrow> cls \<Rightarrow> (string \<times> ndarray) list \<Rightarrow> eval_state \<Rightarrow> py_error + eval_state" where
  "eval_files centroids true_class [] st = Inr st"
| "eval_files centroids true_class (fx # files) st =
     (case process_file centroids true_class fx st of
        Inl e \<Rightarrow> Inl e
      | Inr st' \<Rightarrow> eval_files centroids true_class files st')"

definition endswith :: "string \<Rightarrow> string \<Rightarrow> bool" where
  "endswith s suffix = (length suffix \<le> length s \<and> drop (length s - length suffix) s = suffix)"

text \<open>
  A test folder is the list of its entries in \<open>os.listdir\<close> order, each name with the
  vector \<open>np.load\<close> reads from it; \<open>None\<close> is a folder that does not exist.
\<close>

fun eval_classes ::
  "(cls \<rightharpoonup> ndarray) \<Rightarrow> (cls \<rightharpoonup> (string \<times> ndarray) list) \<Rightarrow> cls list \<Rightarrow> eval_state \<Rightarrow>
     py_error + eval_state" where
  "eval_classes centroids test_dir [] st = Inr st"
| "eval_classes centroids test_dir (true_class # cs) st =
     (case test_dir true_class of
        None \<Rightarrow> eval_classes centroids test_dir cs st
      | Some listing \<Rightarrow>
          (case eval_files centroids true_class
                  (filter (\<lambda>fx. endswith (fst fx) ''.npy'') listing) st of
             Inl e \<Rightarrow> Inl e
           | Inr st' \<Rightarrow> eval_classes centroids test_dir cs st'))"

text \<open>Loading the centroids stops at the first class whose file is missing.\<close>

fun load_centroids :: "(cls \<rightharpoonup> ndarray) \<Rightarrow> cls list \<Rightarrow> (cls \<rightharpoonup> ndarray) \<Rightarrow> cls + (cls \<rightharpoonup> ndarray)" where
  "load_centroids centroid_dir [] centroids = Inr centroids"
| "load_centroids centroid_dir (c # cs) centroids =
     (case centroid_dir c of
        None \<Rightarrow> Inl c
      | Some v \<Rightarrow> load_centroids centroid_dir cs (centroids(c \<mapsto> v)))"

text \<open>\<open>a / b\<close> on Python integers raises ZeroDivisionError when \<open>b\<close> is zero.\<close>

definition py_truediv :: "nat \<Rightarrow> nat \<Rightarrow> py_error + real" where
  "py_truediv a b = (if b = 0 then Inl ZeroDivisionError else Inr (real a / real b))"

fun accuracy_lines :: "eval_state \<Rightarrow> metric list \<Rightarrow> py_error + (metric \<times> real \<times> nat \<times> nat) list" where
  "accuracy_lines st [] = Inr []"
| "accuracy_lines st (m # ms) =
     (case py_truediv (correct_counts st m) (total_images st) of
        Inl e \<Rightarrow> Inl e
      | Inr q \<Rightarrow>
          let acc = q * 100
          in (case accuracy_lines st ms of
                Inl e \<Rightarrow> Inl e
              | Inr ls \<Rightarrow> Inr ((m, acc, correct_counts st m, total_images st) # ls)))"

definition confusion_table :: "eval_state \<Rightarrow> metric \<Rightarrow> nat list list" where
  "confusion_table st m =
     map (\<lambda>t_class. map (\<lambda>p. confusion_matrices st m t_class p) CLASSES) CLASSES"

record report =
  detailed_predictions :: "eval_row list"
  confusion_files :: "(metric \<times> nat list list) list"
  accuracy_summary :: "(metric \<times> real \<times> nat \<times> nat) list"

text \<open>
  A run ends in one of three ways: an exception leaves \<open>run_evaluation\<close> (\<open>Inl\<close>), a
  missing centroid is printed as an error and the function returns, or the three kinds
  of output files are written.  The header of the detailed table is read from
  \<open>results[0]\<close>, which raises IndexError on an empty list.  The first argument holds the
  centroid files that exist, the second the test folders.  Creating the output folder
  and the progress messages are not part of the model; the accuracy is kept as a number,
  before it is formatted to two decimals.
\<close>

datatype outcome = Missing_Centroid cls | Completed report

definition run_evaluation ::
  "(cls \<rightharpoonup> ndarray) \<Rightarrow> (cls \<rightharpoonup> (string \<times> ndarray) list) \<Rightarrow> py_error + outcome" where
  "run_evaluation centroid_dir test_dir =
     (case load_centroids centroid_dir CLASSES Map.empty of
        Inl c \<Rightarrow> Inr (Missing_Centroid c)
      | Inr centroids \<Rightarrow>
          (case eval_classes centroids test_dir CLASSES init_state of
             Inl e \<Rightarrow> Inl e
           | Inr st \<Rightarrow>
               (case results st of
                  [] \<Rightarrow> Inl IndexError
                | row0 # _ \<Rightarrow>
                    (case accuracy_lines st METRICS of
                       Inl e \<Rightarrow> Inl e
                     | Inr summary \<Rightarrow>
                         Inr (Completed
                               \<lparr>detailed_predictions = results st,
                                confusion_files = map (\<lambda>m. (m, confusion_table st m)) METRICS,
                                accuracy_summary = summary\<rparr>)))))"

section \<open>Dataset splitter (01_train_test_split.py)\<close>

definition SOURCE_DIR :: string where
  "SOURCE_DIR = ''raw_data''"

definition TRAIN_DIR :: string where
  "TRAIN_DIR = ''dataset_train''"

definition TEST_DIR :: string where
  "TEST_DIR = ''dataset_test''"

definition SPLIT_COUNT :: nat where
  "SPLIT_COUNT = 5"

text \<open>\<open>os.path.join\<close> on POSIX, for two components.\<close>

definition path_join :: "string \<Rightarrow> string \<Rightarrow> string" where
  "path_join a b =
     (if b \<noteq> [] \<and> hd b = CHR ''/'' then b
      else if a = [] \<or> last a = CHR ''/'' then a @ b
      else a @ ''/'' @ b)"

text \<open>\<open>str.lower\<close>, on the ASCII letters (the only ones the three suffixes can match).\<close>

definition lower_char :: "char \<Rightarrow> char" where
  "lower_char c =
     (let n = (of_char c :: nat)
      in if 65 \<le> n \<and> n \<le> 90 then char_of (n + 32) else c)"

definition lower :: "string \<Rightarrow> string" where
  "lower s = map lower_char s"

definition is_image_name :: "string \<Rightarrow> bool" where
  "is_image_name f =
     (endswith (lower f) ''.png'' \<or> endswith (lower f) ''.jpg'' \<or> endswith (lower f) ''.jpeg'')"

text \<open>
  \<open>random.shuffle\<close> is the Fisher-Yates loop of CPython: for \<open>i\<close> from \<open>len(x) - 1\<close>
  down to 1, exchange \<open>x[i]\<close> with \<open>x[j]\<close>, \<open>j = randbelow(i + 1)\<close>.  The generator is
  a parameter: \<open>draw i\<close> is the number drawn at index \<open>i\<close>, reduced to the range
  \<open>randbelow\<close> promises.
\<close>

fun shuffle_loop :: "(nat \<Rightarrow> nat) \<Rightarrow> nat \<Rightarrow> 'a list \<Rightarrow> 'a list" where
  "shuffle_loop draw 0 x = x"
| "shuffle_loop draw (Suc i) x =
     (let j = draw (Suc i) mod (Suc i + 1)
      in shuffle_loop draw i (x[Suc i := x ! j, j := x ! Suc i]))"

definition shuffle :: "(nat \<Rightarrow> nat) \<Rightarrow> 'a list \<Rightarrow> 'a list" where
  "shuffle draw x = shuffle_loop draw (length x - 1) x"

definition test_files :: "(nat \<Rightarrow> nat) \<Rightarrow> string list \<Rightarrow> string list" where
  "test_files draw files = take SPLIT_COUNT (shuffle draw files)"

definition train_files :: "(nat \<Rightarrow> nat) \<Rightarrow> string list \<Rightarrow> string list" where
  "train_files draw files = drop SPLIT_COUNT (shuffle draw files)"

text \<open>
  The file system: a directory path is mapped to the regular files it holds, each name
  with its contents, in \<open>os.listdir\<close> order.  Faults of the operating system (permissions,
  a full disk) are outside the model.
\<close>

type_synonym contents = "nat list"

type_synonym filesystem = "string \<rightharpoonup> (string \<times> contents) list"

datatype io_error = FileNotFoundError

record split_state =
  fs :: filesystem
  printed :: "string list"

definition print_line :: "string \<Rightarrow> split_state \<Rightarrow> split_state" where
  "print_line s st = st\<lparr>printed := printed st @ [s]\<rparr>"

definition makedirs :: "string \<Rightarrow> split_state \<Rightarrow> split_state" where
  "makedirs path st = (case fs st path of None \<Rightarrow> st\<lparr>fs := (fs st)(path \<mapsto> [])\<rparr> | Some _ \<Rightarrow> st)"

text \<open>\<open>shutil.copy2(os.path.join(src, f), os.path.join(dst, f))\<close>.\<close>

definition copy2 :: "string \<Rightarrow> string \<Rightarrow> string \<Rightarrow> split_state \<Rightarrow> io_error + split_state" where
  "copy2 src dst f st =
     (case fs st src of
        None \<Rightarrow> Inl FileNotFoundError
      | Some entries \<Rightarrow>
          (case map_of entries f of
             None \<Rightarrow> Inl FileNotFoundError
           | Some data \<Rightarrow>
               (case fs st dst of
                  None \<Rightarrow> Inl FileNotFoundError
                | Some present \<Rightarrow> Inr (st\<lparr>fs := (fs st)(dst \<mapsto> AList.update f data present)\<rparr>))))"

fun copy_all :: "string \<Rightarrow> string \<Rightarrow> string list \<Rightarrow> split_state \<Rightarrow> io_error + split_state" where
  "copy_all src dst [] st = Inr st"
| "copy_all src dst (f # fs') st =
     (case copy2 src dst f st of Inl e \<Rightarrow> Inl e | Inr st' \<Rightarrow> copy_all src dst fs' st')"

fun digit_char :: "nat \<Rightarrow> char" where
  "digit_char n = char_of (48 + n)"

fun show_nat :: "nat \<Rightarrow> string" where
  "show_nat n = (if n < 10 then [digit_char n] else show_nat (n div 10) @ [digit_char (n mod 10)])"

declare show_nat.simps [simp del]

text \<open>The body of the loop over the classes; \<open>draw\<close> is the generator for this class.\<close>

definition split_class :: "(nat \<Rightarrow> nat) \<Rightarrow> cls \<Rightarrow> split_state \<Rightarrow> io_error + split_state" where
  "split_class draw c st =
     (let st1 = print_line (''\<newline>--- Splitting Class: '' @ class_name c @ '' ---'') st;
          src_path = path_join SOURCE_DIR (class_name c);
          train_path = path_join TRAIN_DIR (class_name c);
          test_path = path_join TEST_DIR (class_name c);
          st2 = makedirs train_path st1;
          st3 = makedirs test_path st2
      in case fs st3 src_path of
           None \<Rightarrow> Inr (print_line (''[Error] Missing source folder: '' @ src_path) st3)
         | Some entries \<Rightarrow>
             let files = filter is_image_name (map fst entries);
                 st4 = print_line (''  -> Total Images: '' @ show_nat (length files)) st3;
                 st5 = print_line (''  -> Training Set: '' @ show_nat (length (train_files draw files))
                                     @ '' (Calculating Centroids)'') st4;
                 st6 = print_line (''  -> Testing Set : '' @ show_nat (length (test_files draw files))
                                     @ '' (Testing Distances)'') st5
             in (case copy_all src_path test_path (test_files draw files) st6 of
                   Inl e \<Rightarrow> Inl e
                 | Inr st7 \<Rightarrow> copy_all src_path train_path (train_files draw files) st7))"

fun split_classes :: "(cls \<Rightarrow> nat \<Rightarrow> nat) \<Rightarrow> cls list \<Rightarrow> split_state \<Rightarrow> io_error + split_state" where
  "split_classes draw [] st = Inr st"
| "split_classes draw (c # cs) st =
     (case split_class (draw c) c st of Inl e \<Rightarrow> Inl e | Inr st' \<Rightarrow> split_classes draw cs st')"

definition split_dataset :: "(cls \<Rightarrow> nat \<Rightarrow> nat) \<Rightarrow> split_state \<Rightarrow> io_error + split_state" where
  "split_dataset draw st =
     (let st1 = (if fs st TRAIN_DIR = None then st\<lparr>fs := (fs st)(TRAIN_DIR \<mapsto> [])\<rparr> else st);
          st2 = (if fs st1 TEST_DIR = None then st1\<lparr>fs := (fs st1)(TEST_DIR \<mapsto> [])\<rparr> else st1)
      in case split_classes draw CLASSES st2 of
           Inl e \<Rightarrow> Inl e
         | Inr st3 \<Rightarrow>
             Inr (print_line (''Use '' @ [CHR 0x27] @ TEST_DIR @ [CHR 0x27] @ '' for Script 4 (Testing Accuracy)'')
                 (print_line (''Use '' @ [CHR 0x27] @ TRAIN_DIR @ [CHR 0x27]
                               @ '' for Script 1 & 2 (Building Matrix/Centroids)'')
                 (print_line ''\<newline>[Done] Dataset split complete.'' st3))))"

section \<open>Notions for the claims about the dataset splitter\<close>

text \<open>
  The three folders of a class, the listing a folder has after a series of copies, the
  lines the loop prints for a class whose source folder exists, and what it means for a
  file to be present in a folder.  A printed line counts as a warning when it contains
  \<open>warn\<close> in any letter case, as the \<open>[Warning]\<close> lines of the sibling scripts do.
  \<open>copied_after\<close> and \<open>folder_names\<close> read the outcome of a run: whether a file is in
  the test or the train folder of its class, and the names a folder lists.
  \<open>small_dataset\<close> is an example input: three source folders of two, one and no images.
\<close>

definition src_path :: "cls \<Rightarrow> string" where
  "src_path c = path_join SOURCE_DIR (class_name c)"

definition train_path :: "cls \<Rightarrow> string" where
  "train_path c = path_join TRAIN_DIR (class_name c)"

definition test_path :: "cls \<Rightarrow> string" where
  "test_path c = path_join TEST_DIR (class_name c)"

fun put_all :: "(string \<times> contents) list \<Rightarrow> string list \<Rightarrow> (string \<times> contents) list \<Rightarrow> (string \<times> contents) list" where
  "put_all entries [] present = present"
| "put_all entries (f # fl) present =
     (case map_of entries f of
        None \<Rightarrow> put_all entries fl present
      | Some data \<Rightarrow> put_all entries fl (AList.update f data present))"

definition listing_or_empty :: "filesystem \<Rightarrow> string \<Rightarrow> (string \<times> contents) list" where
  "listing_or_empty F p = (case F p of None \<Rightarrow> [] | Some l \<Rightarrow> l)"

definition class_lines :: "cls \<Rightarrow> nat \<Rightarrow> nat \<Rightarrow> nat \<Rightarrow> string list" where
  "class_lines c n_total n_train n_test =
     [''\<newline>--- Splitting Class: '' @ class_name c @ '' ---'',
      ''  -> Total Images: '' @ show_nat n_total,
      ''  -> Training Set: '' @ show_nat n_train @ '' (Calculating Centroids)'',
      ''  -> Testing Set : '' @ show_nat n_test @ '' (Testing Distances)'']"

definition holds_file :: "filesystem \<Rightarrow> string \<Rightarrow> string \<Rightarrow> contents \<Rightarrow> bool" where
  "holds_file F dir f data = (case F dir of None \<Rightarrow> False | Some l \<Rightarrow> map_of l f = Some data)"

definition copied_in :: "filesystem \<Rightarrow> cls \<Rightarrow> string \<Rightarrow> contents \<Rightarrow> bool" where
  "copied_in F c f data = (holds_file F (test_path c) f data \<or> holds_file F (train_path c) f data)"

definition contains :: "string \<Rightarrow> string \<Rightarrow> bool" where
  "contains s sub = list_ex (\<lambda>i. take (length sub) (drop i s) = sub) [0..<Suc (length s)]"

definition is_warning :: "string \<Rightarrow> bool" where
  "is_warning line = contains (lower line) ''warn''"

definition emitted_warnings :: "io_error + split_state \<Rightarrow> string list option" where
  "emitted_warnings r = (case r of Inl e \<Rightarrow> None | Inr st \<Rightarrow> Some (filter is_warning (printed st)))"

definition copied_after :: "io_error + split_state \<Rightarrow> cls \<Rightarrow> string \<Rightarrow> contents \<Rightarrow> bool option" where
  "copied_after r c f data = (case r of Inl e \<Rightarrow> None | Inr st \<Rightarrow> Some (copied_in (fs st) c f data))"

definition folder_names :: "io_error + split_state \<Rightarrow> string \<Rightarrow> string list option" where
  "folder_names r p = (case r of Inl e \<Rightarrow> None | Inr st \<Rightarrow> Some (map fst (listing_or_empty (fs st) p)))"

definition small_dataset :: split_state where
  "small_dataset =
     \<lparr>fs = [''raw_data/pizza_slice'' \<mapsto> [(''a.png'', [1]), (''b.JPG'', [2]), (''notes.txt'', [3])],
             ''raw_data/whole_pizza'' \<mapsto> [(''w.jpeg'', [4])],
             ''raw_data/pizza_box'' \<mapsto> []],
      printed = []\<rparr>"

section \<open>Notions for the claims about the distance evaluator\<close>

text \<open>
  The distance of one metric, the distance from a vector to the centroid of a class, the
  prediction a row of the detailed table records for a metric, the row of one test
  sample, what one sample and what a list of samples add to the counters, the test
  samples of a class, and the rows of a whole run in processing order.
  \<open>tie_centroids\<close> is an example in which two classes have the same centroid.
\<close>

definition distance :: "metric \<Rightarrow> ndarray \<Rightarrow> ndarray \<Rightarrow> py_error + real" where
  "distance m v1 v2 =
     (case m of Euclidean \<Rightarrow> d_euclidean v1 v2 | Manhattan \<Rightarrow> d_manhattan v1 v2
      | Cosine \<Rightarrow> d_cosine v1 v2)"

definition pred_of :: "eval_row \<Rightarrow> metric \<Rightarrow> cls" where
  "pred_of row m = (case m of Euclidean \<Rightarrow> Pred_E row | Manhattan \<Rightarrow> Pred_M row | Cosine \<Rightarrow> Pred_C row)"

definition row_of :: "(cls \<rightharpoonup> ndarray) \<Rightarrow> cls \<Rightarrow> string \<times> ndarray \<Rightarrow> py_error + eval_row" where
  "row_of centroids true_class fx =
     (case compute_dists centroids (snd fx) CLASSES (\<lambda>m. []) of
        Inl e \<Rightarrow> Inl e
      | Inr dists \<Rightarrow>
          (case decide dists true_class METRICS (Map.empty, init_state) of
             Inl e \<Rightarrow> Inl e
           | Inr ps \<Rightarrow> make_row (fst fx) true_class (fst ps) dists))"

definition dist_to :: "(cls \<rightharpoonup> ndarray) \<Rightarrow> metric \<Rightarrow> ndarray \<Rightarrow> cls \<Rightarrow> py_error + real" where
  "dist_to centroids m x k =
     (case centroids k of None \<Rightarrow> Inl KeyError | Some mu_k \<Rightarrow> distance m x mu_k)"

definition tallied :: "eval_row \<Rightarrow> eval_state \<Rightarrow> eval_state \<Rightarrow> bool" where
  "tallied row st st' \<longleftrightarrow>
     results st' = results st @ [row] \<and> total_images st' = total_images st + 1
     \<and> (\<forall>m. correct_counts st' m
            = correct_counts st m + (if pred_of row m = True_Class row then 1 else 0))
     \<and> (\<forall>m t q. confusion_matrices st' m t q
            = confusion_matrices st m t q
              + (if t = True_Class row \<and> q = pred_of row m then 1 else 0))"

fun collect :: "('e + 'a) list \<Rightarrow> 'e + 'a list" where
  "collect [] = Inr []"
| "collect (r # rs) =
     (case r of
        Inl e \<Rightarrow> Inl e
      | Inr a \<Rightarrow> (case collect rs of Inl e \<Rightarrow> Inl e | Inr as \<Rightarrow> Inr (a # as)))"

definition class_samples :: "(cls \<rightharpoonup> (string \<times> ndarray) list) \<Rightarrow> cls \<Rightarrow> (string \<times> ndarray) list" where
  "class_samples test_dir t =
     (case test_dir t of None \<Rightarrow> [] | Some listing \<Rightarrow> filter (\<lambda>fx. endswith (fst fx) ''.npy'') listing)"

definition all_rows ::
  "(cls \<rightharpoonup> ndarray) \<Rightarrow> (cls \<rightharpoonup> (string \<times> ndarray) list) \<Rightarrow> cls list \<Rightarrow> (py_error + eval_row) list" where
  "all_rows centroids test_dir cs =
     concat (map (\<lambda>t. map (row_of centroids t) (class_samples test_dir t)) cs)"

definition tallies :: "eval_row list \<Rightarrow> eval_state \<Rightarrow> eval_state \<Rightarrow> bool" where
  "tallies rows st st' \<longleftrightarrow>
     results st' = results st @ rows \<and> total_images st' = total_images st + length rows
     \<and> (\<forall>m. correct_counts st' m
            = correct_counts st m + length (filter (\<lambda>r. pred_of r m = True_Class r) rows))
     \<and> (\<forall>m t q. confusion_matrices st' m t q
            = confusion_matrices st m t q
              + length (filter (\<lambda>r. True_Class r = t \<and> pred_of r m = q) rows))"

definition tie_centroids :: "cls \<rightharpoonup> ndarray" where
  "tie_centroids k =
     Some (F64 (case k of pizza_slice \<Rightarrow> [0, 1] | whole_pizza \<Rightarrow> [1, 0] | pizza_box \<Rightarrow> [1, 0]))"

section \<open>An example test folder\<close>

text \<open>
  One test folder, for the class whole_pizza, holding one vector file and one file that
  is not a vector file; the other two folders do not exist.
\<close>

definition one_sample_dir :: "cls \<rightharpoonup> (string \<times> ndarray) list" where
  "one_sample_dir t = (if t = whole_pizza then Some [(''t.npy'', U8 [1, 0]), (''notes.txt'', U8 [])] else None)"

section \<open>The report of a run as a function of its rows\<close>

text \<open>
  The three kinds of output written by a run whose loop produced the given rows, and
  example test folders: two samples and the same two in the other order, with and
  without a vector of the wrong dimension.
\<close>

definition report_of :: "eval_row list \<Rightarrow> report" where
  "report_of rows =
     \<lparr>detailed_predictions = rows,
      confusion_files =
        map (\<lambda>m. (m, map (\<lambda>t. map (\<lambda>q. length (filter (\<lambda>r. True_Class r = t \<and> pred_of r m = q) rows))
                               CLASSES) CLASSES)) METRICS,
      accuracy_summary =
        map (\<lambda>m. (m, real (length (filter (\<lambda>r. pred_of r m = True_Class r) rows))
                        / real (length rows) * 100,
                    length (filter (\<lambda>r. pred_of r m = True_Class r) rows), length rows)) METRICS\<rparr>"

definition two_sample_dir :: "cls \<rightharpoonup> (string \<times> ndarray) list" where
  "two_sample_dir t = (if t = whole_pizza then Some [(''a.npy'', U8 [1, 0]), (''b.npy'', U8 [1, 0])] else None)"

definition two_sample_dir_swapped :: "cls \<rightharpoonup> (string \<times> ndarray) list" where
  "two_sample_dir_swapped t =
     (if t = whole_pizza then Some [(''b.npy'', U8 [1, 0]), (''a.npy'', U8 [1, 0])] else None)"

definition bad_sample_dir :: "cls \<rightharpoonup> (string \<times> ndarray) list" where
  "bad_sample_dir t = (if t = whole_pizza then Some [(''a.npy'', U8 [1, 0]), (''b.npy'', U8 [1, 2, 3])] else None)"

definition bad_sample_dir_swapped :: "cls \<rightharpoonup> (string \<times> ndarray) list" where
  "bad_sample_dir_swapped t =
     (if t = whole_pizza then Some [(''b.npy'', U8 [1, 2, 3]), (''a.npy'', U8 [1, 0])] else None)"

section \<open>Facts about the numpy primitives\<close>

lemma as_float_simps [simp]:
  "as_float (U8 ws) = map (\<lambda>w. real (unat w)) ws"
  "as_float (F64 xs) = xs"
  by (simp_all add: as_float_def)

lemma both_u8_simps [simp]:
  "both_u8 (U8 a) (U8 b) = True"
  "both_u8 (F64 xs) v2 = False"
  "both_u8 v1 (F64 ys) = False"
  by (simp_all add: both_u8_def split: ndarray.splits)

lemma broadcast_same_length: "length v1 = length v2 \<Longrightarrow> broadcast f v1 v2 = Inr (map2 f v1 v2)"
  by (simp add: broadcast_def)

lemma np_sub_float:
  "\<not> both_u8 v1 v2 \<Longrightarrow> length (as_float v1) = length (as_float v2) \<Longrightarrow>
     np_sub v1 v2 = Inr (F64 (map2 (-) (as_float v1) (as_float v2)))"
  by (cases v1; cases v2) (simp_all add: np_sub_def broadcast_same_length)

lemma np_sub_u8:
  "length a = length b \<Longrightarrow> np_sub (U8 a) (U8 b) = Inr (U8 (map2 (-) a b))"
  by (simp add: np_sub_def broadcast_same_length)

lemma np_dot_float:
  "\<not> both_u8 v1 v2 \<Longrightarrow> length (as_float v1) = length (as_float v2) \<Longrightarrow>
     np_dot v1 v2 = Inr (sum_list (map2 (*) (as_float v1) (as_float v2)))"
  by (cases v1; cases v2) (simp_all add: np_dot_def)

lemma sum_squares_nonneg: "0 \<le> sum_list (map (\<lambda>a::real. a ^ 2) v)"
  by (rule sum_list_nonneg) auto

lemma sum_abs_nonneg: "0 \<le> sum_list (map (\<lambda>a::real. \<bar>a\<bar>) v)"
  by (rule sum_list_nonneg) auto

lemma sum_squares_zero_iff:
  "sum_list (map (\<lambda>a::real. a ^ 2) v) = 0 \<longleftrightarrow> (\<forall>a \<in> set v. a = 0)"
  by (induction v) (auto simp: add_nonneg_eq_0_iff sum_squares_nonneg)

lemma sum_abs_zero_iff:
  "sum_list (map (\<lambda>a::real. \<bar>a\<bar>) v) = 0 \<longleftrightarrow> (\<forall>a \<in> set v. a = 0)"
  by (induction v) (auto simp: add_nonneg_eq_0_iff sum_abs_nonneg)

lemma diff_all_zero_iff:
  "length x = length y \<Longrightarrow> (\<forall>a \<in> set (map2 (-) x y). a = (0::real)) \<longleftrightarrow> x = y"
  by (induction x y rule: list_induct2) auto

lemma sum_squares_diff_sym:
  "length x = length y \<Longrightarrow>
     sum_list (map (\<lambda>a::real. a ^ 2) (map2 (-) x y)) = sum_list (map (\<lambda>a. a ^ 2) (map2 (-) y x))"
  by (induction x y rule: list_induct2) (auto simp: power2_commute)

lemma sum_abs_diff_sym:
  "length x = length y \<Longrightarrow>
     sum_list (map (\<lambda>a::real. \<bar>a\<bar>) (map2 (-) x y)) = sum_list (map (\<lambda>a. \<bar>a\<bar>) (map2 (-) y x))"
  by (induction x y rule: list_induct2) (auto simp: abs_minus_commute)

lemma squares_diff_sym_u8:
  "length a = length b \<Longrightarrow>
     map (\<lambda>w :: 8 word. w ^ 2) (map2 (-) a b) = map (\<lambda>w. w ^ 2) (map2 (-) b a)"
  by (induction a b rule: list_induct2) (auto simp: power2_commute)

lemma dot_sym:
  "length x = length y \<Longrightarrow>
     sum_list (map2 (*) x y) = sum_list (map2 (*) y (x :: 'a :: comm_semiring_0 list))"
  by (induction x y rule: list_induct2) (auto simp: mult.commute)

lemma dot_self: "sum_list (map2 (*) x x) = sum_list (map (\<lambda>a::real. a ^ 2) x)"
  by (induction x) (auto simp: power2_eq_square)

lemma np_dot_sym: "np_dot v1 v2 = np_dot v2 v1"
proof (cases "length (as_float v1) = length (as_float v2)")
  case False
  then show ?thesis by (simp add: np_dot_def)
next
  case True
  then show ?thesis
    by (cases v1; cases v2) (simp_all add: np_dot_def dot_sym)
qed

lemma norm_zero_iff: "np_linalg_norm v = 0 \<longleftrightarrow> (\<forall>a \<in> set (as_float v). a = 0)"
  by (simp add: np_linalg_norm_def sum_squares_zero_iff)

lemma norm_replicate_zero:
  "np_linalg_norm (F64 (replicate n 0)) = 0" "np_linalg_norm (U8 (replicate n 0)) = 0"
  by (simp_all add: norm_zero_iff)

lemma norm_square:
  "np_linalg_norm v * np_linalg_norm v = sum_list (map (\<lambda>a. a ^ 2) (as_float v))"
  by (simp add: np_linalg_norm_def sum_squares_nonneg)

lemma d_euclidean_float:
  "\<not> both_u8 x y \<Longrightarrow> length (as_float x) = length (as_float y) \<Longrightarrow>
     d_euclidean x y = Inr (sqrt (sum_list (map (\<lambda>a. a ^ 2) (map2 (-) (as_float x) (as_float y)))))"
  by (simp add: d_euclidean_def np_sub_float np_sum_def np_square_def)

lemma d_manhattan_float:
  "\<not> both_u8 x y \<Longrightarrow> length (as_float x) = length (as_float y) \<Longrightarrow>
     d_manhattan x y = Inr (sum_list (map (\<lambda>a. \<bar>a\<bar>) (map2 (-) (as_float x) (as_float y))))"
  by (simp add: d_manhattan_def np_sub_float np_sum_def np_abs_def)

lemma d_euclidean_u8:
  "length a = length b \<Longrightarrow>
     d_euclidean (U8 a) (U8 b)
       = Inr (sqrt (real (sum_list (map unat (map (\<lambda>w. w ^ 2) (map2 (-) a b))) mod 2 ^ 64)))"
  by (simp add: d_euclidean_def np_sub_u8 np_sum_def np_square_def)

lemma d_manhattan_u8:
  "length a = length b \<Longrightarrow>
     d_manhattan (U8 a) (U8 b) = Inr (real (sum_list (map unat (map2 (-) a b)) mod 2 ^ 64))"
  by (simp add: d_manhattan_def np_sub_u8 np_sum_def np_abs_def)

lemma d_cosine_same_length:
  "length (as_float v1) = length (as_float v2) \<Longrightarrow>
     \<exists>D. np_dot v1 v2 = Inr D
        \<and> d_cosine v1 v2 =
            (if np_linalg_norm v1 = 0 \<or> np_linalg_norm v2 = 0 then Inr 1
             else Inr (1 - D / (np_linalg_norm v1 * np_linalg_norm v2)))"
  by (cases v1; cases v2) (simp_all add: d_cosine_def np_dot_def np_divide_def Let_def)

lemma d_cosine_float:
  "\<not> both_u8 v1 v2 \<Longrightarrow> length (as_float v1) = length (as_float v2) \<Longrightarrow>
     d_cosine v1 v2 =
       (if np_linalg_norm v1 = 0 \<or> np_linalg_norm v2 = 0 then Inr 1
        else Inr (1 - sum_list (map2 (*) (as_float v1) (as_float v2))
                        / (np_linalg_norm v1 * np_linalg_norm v2)))"
  by (simp add: d_cosine_def np_dot_float np_divide_def Let_def)

lemma d_cosine_no_zero_division: "d_cosine v1 v2 \<noteq> Inl DivideByZero"
  by (cases v1; cases v2) (auto simp: d_cosine_def np_dot_def np_divide_def Let_def)

lemma d_cosine_sym: "d_cosine x y = d_cosine y x"
proof -
  have "(np_linalg_norm x = 0 \<or> np_linalg_norm y = 0) = (np_linalg_norm y = 0 \<or> np_linalg_norm x = 0)"
    by blast
  moreover have "np_linalg_norm x * np_linalg_norm y = np_linalg_norm y * np_linalg_norm x"
    by (rule mult.commute)
  ultimately show ?thesis
    by (simp only: d_cosine_def np_dot_sym [of x y] Let_def)
qed

lemma sqrt_25: "sqrt 25 = 5"
  by (rule real_sqrt_unique) simp_all

section \<open>Claims about the distance functions\<close>








lemma column_sums_length:
  "\<forall>x \<in> set rs. length x = length r \<Longrightarrow> length (foldl (map2 (+)) r rs) = length (r :: real list)"
  by (induction rs arbitrary: r) auto

lemma column_sums_nth:
  "\<forall>x \<in> set rs. length x = length r \<Longrightarrow> i < length r \<Longrightarrow>
     foldl (map2 (+)) r rs ! i = (r :: real list) ! i + (\<Sum>x\<leftarrow>rs. x ! i)"
  by (induction rs arbitrary: r) (auto simp: add.assoc)

lemma np_mean_axis0_nth:
  assumes "matrix_X \<noteq> []" and "\<forall>r \<in> set matrix_X. length r = d"
  shows "\<exists>c. np_mean_axis0 matrix_X = Inr c \<and> length c = d
           \<and> (\<forall>i<d. c ! i = (\<Sum>r\<leftarrow>matrix_X. r ! i) / real (length matrix_X))"
proof -
  from assms(1) obtain r rs where X: "matrix_X = r # rs" by (cases matrix_X) auto
  have len: "\<forall>x \<in> set rs. length x = length r" and d: "length r = d"
    using assms(2) X by auto
  have "np_mean_axis0 matrix_X = Inr (map (\<lambda>s. s / real (length matrix_X)) (foldl (map2 (+)) r rs))"
    by (simp add: np_mean_axis0_def X)
  moreover have "length (map (\<lambda>s. s / real (length matrix_X)) (foldl (map2 (+)) r rs)) = d"
    using column_sums_length [OF len] d by simp
  moreover have "\<forall>i<d. map (\<lambda>s. s / real (length matrix_X)) (foldl (map2 (+)) r rs) ! i
                    = (\<Sum>r\<leftarrow>matrix_X. r ! i) / real (length matrix_X)"
    using column_sums_length [OF len] column_sums_nth [OF len] d by (simp add: X)
  ultimately show ?thesis by blast
qed

lemma np_mean_axis0_single: "np_mean_axis0 [row] = Inr row"
  by (simp add: np_mean_axis0_def)

lemma centroid_file_kept:
  "saved c = Some cv \<Longrightarrow> matrices c = Some matrix_X \<Longrightarrow> np_mean_axis0 matrix_X = Inr cv \<Longrightarrow>
     fst (calculate_and_visualize_centroids matrices cs saved) c = Some cv"
  by (induction cs arbitrary: saved) (auto simp: Let_def split: option.splits sum.splits)

lemma centroid_file_saved:
  "matrices c = Some matrix_X \<Longrightarrow> np_mean_axis0 matrix_X = Inr cv \<Longrightarrow>
     fst (calculate_and_visualize_centroids matrices (c # cs) saved) c = Some cv"
  using centroid_file_kept [of "saved(c \<mapsto> cv)" c cv matrices matrix_X cs]
  by (simp add: Let_def)

section \<open>Claims about the centroid calculator\<close>

text \<open>
  C1.  For a class matrix of \<open>n \<ge> 1\<close> rows of dimension \<open>d\<close>, the centroid that
  \<open>calculate_and_visualize_centroids\<close> computes and saves is the vector of dimension \<open>d\<close>
  whose \<open>i\<close>-th component is the arithmetic mean of the \<open>i\<close>-th components of the rows;
  for a matrix of one row the centroid is that row.
\<close>

theorem centroid_is_mean:
  "matrix_X \<noteq> [] \<Longrightarrow> \<forall>r \<in> set matrix_X. length r = d \<Longrightarrow>
     (\<exists>c. np_mean_axis0 matrix_X = Inr c \<and> length c = d
          \<and> (\<forall>i<d. c ! i = (\<Sum>r\<leftarrow>matrix_X. r ! i) / real (length matrix_X))
          \<and> (\<forall>k ks matrices saved. matrices k = Some matrix_X \<longrightarrow>
                fst (calculate_and_visualize_centroids matrices (k # ks) saved) k = Some c))
     \<and> (\<forall>row. matrix_X = [row] \<longrightarrow> np_mean_axis0 matrix_X = Inr row)"
proof (rule conjI)
  assume ne: "matrix_X \<noteq> []" and rect: "\<forall>r \<in> set matrix_X. length r = d"
  from np_mean_axis0_nth [OF ne rect] obtain c where
    c: "np_mean_axis0 matrix_X = Inr c" "length c = d"
       "\<forall>i<d. c ! i = (\<Sum>r\<leftarrow>matrix_X. r ! i) / real (length matrix_X)"
    by blast
  have "\<forall>k ks matrices saved. matrices k = Some matrix_X \<longrightarrow>
          fst (calculate_and_visualize_centroids matrices (k # ks) saved) k = Some c"
    using centroid_file_saved [OF _ c(1)] by blast
  with c show "\<exists>c. np_mean_axis0 matrix_X = Inr c \<and> length c = d
          \<and> (\<forall>i<d. c ! i = (\<Sum>r\<leftarrow>matrix_X. r ! i) / real (length matrix_X))
          \<and> (\<forall>k ks matrices saved. matrices k = Some matrix_X \<longrightarrow>
                fst (calculate_and_visualize_centroids matrices (k # ks) saved) k = Some c)"
    by blast
next
  show "\<forall>row. matrix_X = [row] \<longrightarrow> np_mean_axis0 matrix_X = Inr row"
    by (simp add: np_mean_axis0_single)
qed

theorem centroid_is_mean_witness:
  "[[1, 2], [3, 6 :: real]] \<noteq> [] \<and> list_all (\<lambda>r. length r = 2) [[1, 2], [3, 6 :: real]]
     \<and> (\<exists>c. np_mean_axis0 [[1, 2], [3, 6]] = Inr c \<and> c ! 0 = 2 \<and> c ! 1 = 4
            \<and> fst (calculate_and_visualize_centroids (\<lambda>k. Some [[1, 2], [3, 6]])
                     [pizza_slice, whole_pizza, pizza_box] Map.empty) pizza_slice = Some c)"
proof -
  have h1: "[[1, 2], [3, 6 :: real]] \<noteq> []" by simp
  have h2: "\<forall>r \<in> set [[1, 2], [3, 6 :: real]]. length r = 2" by simp
  from centroid_is_mean [OF h1 h2, THEN conjunct1] obtain c where
    c: "np_mean_axis0 [[1, 2], [3, 6]] = Inr c \<and> length c = 2
          \<and> (\<forall>i<2. c ! i = (\<Sum>r\<leftarrow>[[1, 2], [3, 6]]. r ! i) / real (length [[1, 2], [3, 6 :: real]]))
          \<and> (\<forall>k ks matrices saved. matrices k = Some [[1, 2], [3, 6]] \<longrightarrow>
                fst (calculate_and_visualize_centroids matrices (k # ks) saved) k = Some c)" ..
  note mean = c [THEN conjunct1]
  note nth = c [THEN conjunct2, THEN conjunct2, THEN conjunct1, rule_format]
  note saved = c [THEN conjunct2, THEN conjunct2, THEN conjunct2, rule_format]
  have c0: "c ! 0 = 2" using nth [of 0] by simp
  have c1: "c ! 1 = 4" using nth [of 1] by simp
  have saved_c: "fst (calculate_and_visualize_centroids (\<lambda>k. Some [[1, 2], [3, 6]])
           [pizza_slice, whole_pizza, pizza_box] Map.empty) pizza_slice = Some c"
    by (rule saved) (rule refl)
  have h3: "list_all (\<lambda>r. length r = 2) [[1, 2], [3, 6 :: real]]" by simp
  show ?thesis
    using h1 h3 mean c0 c1 saved_c by (intro conjI exI [of _ c]) assumption+
qed

lemma sum_list_map_perm:
  fixes f :: "'a \<Rightarrow> real"
  assumes "mset X' = mset X"
  shows "sum_list (map f X') = sum_list (map f X)"
proof -
  have "mset (map f X') = mset (map f X)"
    using assms by simp
  then have "sum_mset (mset (map f X')) = sum_mset (mset (map f X))"
    by (rule arg_cong)
  then show ?thesis
    by (simp only: sum_mset_sum_list)
qed

lemma np_mean_axis0_perm:
  assumes perm: "mset X' = mset X" and rect: "\<forall>r \<in> set X. length r = d"
  shows "np_mean_axis0 X' = np_mean_axis0 X"
proof (cases "X = []")
  case True
  with perm show ?thesis by simp
next
  case False
  with perm have ne': "X' \<noteq> []" by auto
  have "set X' = set X"
    using perm by (rule mset_eq_setD)
  with rect have rect': "\<forall>r \<in> set X'. length r = d" by simp
  obtain c where c: "np_mean_axis0 X = Inr c" "length c = d"
    "\<forall>i<d. c ! i = (\<Sum>r\<leftarrow>X. r ! i) / real (length X)"
    using np_mean_axis0_nth [OF False rect] by blast
  obtain c' where c': "np_mean_axis0 X' = Inr c'" "length c' = d"
    "\<forall>i<d. c' ! i = (\<Sum>r\<leftarrow>X'. r ! i) / real (length X')"
    using np_mean_axis0_nth [OF ne' rect'] by blast
  have len: "length X' = length X"
    using perm by (rule mset_eq_length)
  have "c' = c"
  proof (rule nth_equalityI)
    show "length c' = length c" by (simp add: c(2) c'(2))
  next
    fix i assume "i < length c'"
    then have i: "i < d" by (simp add: c'(2))
    show "c' ! i = c ! i"
      using c(3) c'(3) i by (simp add: len sum_list_map_perm [OF perm])
  qed
  then show ?thesis by (simp add: c(1) c'(1))
qed

section \<open>Claims about the dataset splitter\<close>

lemma length_shuffle_loop: "length (shuffle_loop draw i x) = length x"
  by (induction i arbitrary: x) (simp_all add: Let_def)

lemma mset_shuffle_loop: "i < length x \<Longrightarrow> mset (shuffle_loop draw i x) = mset x"
proof (induction i arbitrary: x)
  case 0
  then show ?case by simp
next
  case (Suc i)
  let ?j = "draw (Suc i) mod (Suc i + 1)"
  have "?j < Suc (Suc i)" by simp
  then have j: "?j < length x" using Suc.prems by linarith
  have "mset (x[Suc i := x ! ?j, ?j := x ! Suc i]) = mset x"
    using j Suc.prems by (rule mset_swap)
  moreover have "i < length (x[Suc i := x ! ?j, ?j := x ! Suc i])"
    using Suc.prems by simp
  ultimately show ?case
    using Suc.IH [of "x[Suc i := x ! ?j, ?j := x ! Suc i]"] by (simp add: Let_def)
qed

lemma mset_shuffle: "mset (shuffle draw x) = mset x"
proof (cases x)
  case Nil
  then show ?thesis by (simp add: shuffle_def)
next
  case (Cons a as)
  then show ?thesis by (simp add: shuffle_def mset_shuffle_loop)
qed

lemma length_shuffle: "length (shuffle draw x) = length x"
  by (simp add: shuffle_def length_shuffle_loop)

lemma set_shuffle: "set (shuffle draw x) = set x"
  using mset_shuffle [of draw x] by (rule mset_eq_setD)

lemma distinct_shuffle: "distinct (shuffle draw x) = distinct x"
  using mset_shuffle [of draw x] by (rule mset_eq_imp_distinct_iff)

lemma split_append: "test_files draw files @ train_files draw files = shuffle draw files"
  by (simp add: test_files_def train_files_def)

text \<open>
  C5.  For every per-class file list of \<open>n\<close> distinct names with \<open>n \<ge> SPLIT_COUNT = 5\<close>, the
  split yields a test subset of exactly 5 files and a train subset of exactly \<open>n - 5\<close>
  files; the two subsets are disjoint and together they are all the files.
\<close>

theorem split_partition:
  "distinct files \<Longrightarrow> SPLIT_COUNT \<le> length files \<Longrightarrow>
     length (test_files draw files) = SPLIT_COUNT \<and> SPLIT_COUNT = 5
     \<and> length (train_files draw files) = length files - SPLIT_COUNT
     \<and> set (train_files draw files) \<inter> set (test_files draw files) = {}
     \<and> set (train_files draw files) \<union> set (test_files draw files) = set files
     \<and> mset (test_files draw files) + mset (train_files draw files) = mset files"
proof (intro conjI)
  assume d: "distinct files" and n: "SPLIT_COUNT \<le> length files"
  show "length (test_files draw files) = SPLIT_COUNT"
    using n by (simp add: test_files_def length_shuffle)
  show "SPLIT_COUNT = 5" by (simp add: SPLIT_COUNT_def)
  show "length (train_files draw files) = length files - SPLIT_COUNT"
    by (simp add: train_files_def length_shuffle)
  have "distinct (test_files draw files @ train_files draw files)"
    using d by (simp only: split_append distinct_shuffle)
  then show "set (train_files draw files) \<inter> set (test_files draw files) = {}"
    by auto
  have "set (test_files draw files @ train_files draw files) = set files"
    by (simp only: split_append set_shuffle)
  then show "set (train_files draw files) \<union> set (test_files draw files) = set files"
    by auto
  have "mset (test_files draw files @ train_files draw files) = mset files"
    by (simp only: split_append mset_shuffle)
  then show "mset (test_files draw files) + mset (train_files draw files) = mset files"
    by simp
qed

lemma paths_simps:
  "src_path c = ''raw_data/'' @ class_name c"
  "train_path c = ''dataset_train/'' @ class_name c"
  "test_path c = ''dataset_test/'' @ class_name c"
  by (cases c; simp add: src_path_def train_path_def test_path_def path_join_def
        SOURCE_DIR_def TRAIN_DIR_def TEST_DIR_def)+

lemma class_name_inj: "class_name c = class_name c' \<longleftrightarrow> c = c'"
  by (cases c; cases c'; simp)

lemma paths_distinct:
  "train_path c \<noteq> src_path c'" "test_path c \<noteq> src_path c'"
  "src_path c' \<noteq> train_path c" "src_path c' \<noteq> test_path c"
  "train_path c \<noteq> test_path c'" "test_path c \<noteq> train_path c'"
  "train_path c = train_path c' \<longleftrightarrow> c = c'"
  "test_path c = test_path c' \<longleftrightarrow> c = c'"
  "src_path c = src_path c' \<longleftrightarrow> c = c'"
  "train_path c \<noteq> TRAIN_DIR" "train_path c \<noteq> TEST_DIR"
  "test_path c \<noteq> TRAIN_DIR" "test_path c \<noteq> TEST_DIR"
  "src_path c \<noteq> TRAIN_DIR" "src_path c \<noteq> TEST_DIR"
  by (simp_all add: paths_simps class_name_inj TRAIN_DIR_def TEST_DIR_def)

lemma map_of_put_all:
  "set fl \<subseteq> fst ` set entries \<Longrightarrow>
     map_of (put_all entries fl present) f = (if f \<in> set fl then map_of entries f else map_of present f)"
proof (induction fl arbitrary: present)
  case Nil
  then show ?case by simp
next
  case (Cons g fl)
  then obtain data where data: "map_of entries g = Some data"
    by (cases "map_of entries g") (auto simp: map_of_eq_None_iff)
  show ?case
    using Cons data by (auto simp: update_conv')
qed

lemma copy_all_ok:
  assumes "src \<noteq> dst" and "fs st src = Some entries" and "set fl \<subseteq> fst ` set entries"
    and "fs st dst = Some present"
  shows "copy_all src dst fl st = Inr (st\<lparr>fs := (fs st)(dst \<mapsto> put_all entries fl present)\<rparr>)"
  using assms
proof (induction fl arbitrary: st present)
  case Nil
  then have "(fs st)(dst \<mapsto> present) = fs st" by (simp add: fun_upd_idem)
  then show ?case by simp
next
  case (Cons g fl)
  then obtain data where data: "map_of entries g = Some data"
    by (cases "map_of entries g") (auto simp: map_of_eq_None_iff)
  let ?st' = "st\<lparr>fs := (fs st)(dst \<mapsto> AList.update g data present)\<rparr>"
  have step: "copy2 src dst g st = Inr ?st'"
    using Cons.prems data by (simp add: copy2_def)
  have ih: "copy_all src dst fl ?st'
          = Inr (?st'\<lparr>fs := (fs ?st')(dst \<mapsto> put_all entries fl (AList.update g data present))\<rparr>)"
    using Cons.prems by (intro Cons.IH) auto
  have eq: "?st'\<lparr>fs := (fs ?st')(dst \<mapsto> put_all entries fl (AList.update g data present))\<rparr>
          = st\<lparr>fs := (fs st)(dst \<mapsto> put_all entries (g # fl) present)\<rparr>"
    by (simp add: data)
  have "copy_all src dst (g # fl) st = copy_all src dst fl ?st'"
    by (simp add: step)
  then show ?case
    by (simp only: ih eq)
qed

lemma fs_print_line [simp]: "fs (print_line l st) = fs st"
  by (simp add: print_line_def)

lemma printed_print_line [simp]: "printed (print_line l st) = printed st @ [l]"
  by (simp add: print_line_def)

lemma fs_makedirs: "fs (makedirs p st) = (fs st)(p \<mapsto> listing_or_empty (fs st) p)"
  by (auto simp: makedirs_def listing_or_empty_def fun_upd_idem split: option.splits)

lemma printed_makedirs [simp]: "printed (makedirs p st) = printed st"
  by (simp add: makedirs_def split: option.splits)

lemma test_files_subset: "set (test_files draw files) \<subseteq> set files"
  using set_take_subset [of SPLIT_COUNT "shuffle draw files"]
  by (simp add: test_files_def set_shuffle)

lemma train_files_subset: "set (train_files draw files) \<subseteq> set files"
  using set_drop_subset [of SPLIT_COUNT "shuffle draw files"]
  by (simp add: train_files_def set_shuffle)

lemma split_class_present:
  assumes src: "fs st (src_path c) = Some entries"
    and files: "files = filter is_image_name (map fst entries)"
  shows "\<exists>st'. split_class draw c st = Inr st'
           \<and> fs st' = (fs st)
                (train_path c \<mapsto> put_all entries (train_files draw files)
                                   (listing_or_empty (fs st) (train_path c)),
                 test_path c \<mapsto> put_all entries (test_files draw files)
                                  (listing_or_empty (fs st) (test_path c)))
           \<and> printed st' = printed st @ class_lines c (length files)
                 (length (train_files draw files)) (length (test_files draw files))"
proof -
  let ?Ltrain = "listing_or_empty (fs st) (train_path c)"
  let ?Ltest = "listing_or_empty (fs st) (test_path c)"
  define st3 where "st3 = makedirs (test_path c) (makedirs (train_path c)
      (print_line (''\<newline>--- Splitting Class: '' @ class_name c @ '' ---'') st))"
  define st6 where "st6 =
      print_line (''  -> Testing Set : '' @ show_nat (length (test_files draw files))
                   @ '' (Testing Distances)'')
     (print_line (''  -> Training Set: '' @ show_nat (length (train_files draw files))
                   @ '' (Calculating Centroids)'')
     (print_line (''  -> Total Images: '' @ show_nat (length files)) st3))"
  have fs3: "fs st3 = (fs st)(train_path c \<mapsto> ?Ltrain, test_path c \<mapsto> ?Ltest)"
    by (simp add: st3_def fs_makedirs listing_or_empty_def paths_distinct)
  have fs6: "fs st6 = fs st3" by (simp add: st6_def)
  have pr6: "printed st6 = printed st @ class_lines c (length files)
                 (length (train_files draw files)) (length (test_files draw files))"
    by (simp add: st6_def st3_def class_lines_def)
  have src6: "fs st6 (src_path c) = Some entries"
    by (simp add: fs6 fs3 src paths_distinct)
  have sub: "set files \<subseteq> fst ` set entries"
    by (auto simp: files)
  let ?st7 = "st6\<lparr>fs := (fs st6)(test_path c \<mapsto> put_all entries (test_files draw files) ?Ltest)\<rparr>"
  have c1: "copy_all (src_path c) (test_path c) (test_files draw files) st6 = Inr ?st7"
    using test_files_subset [of draw files] sub
    by (intro copy_all_ok [OF _ src6]) (auto simp: paths_distinct fs6 fs3)
  let ?st8 = "?st7\<lparr>fs := (fs ?st7)(train_path c \<mapsto> put_all entries (train_files draw files) ?Ltrain)\<rparr>"
  have c2: "copy_all (src_path c) (train_path c) (train_files draw files) ?st7 = Inr ?st8"
    using train_files_subset [of draw files] sub
    by (intro copy_all_ok) (auto simp: paths_distinct fs6 fs3 src)
  have src3: "fs st3 (src_path c) = Some entries"
    by (simp add: fs3 src paths_distinct)
  have run: "split_class draw c st = Inr ?st8"
    apply (unfold split_class_def Let_def)
    apply (fold src_path_def train_path_def test_path_def)
    apply (fold st3_def)
    apply (simp only: src3 option.case files [symmetric])
    apply (fold st6_def)
    apply (simp only: c1 c2 sum.case)
    done
  have fs8: "fs ?st8 = (fs st)
                (train_path c \<mapsto> put_all entries (train_files draw files) ?Ltrain,
                 test_path c \<mapsto> put_all entries (test_files draw files) ?Ltest)"
    by (auto simp: fs6 fs3 paths_distinct fun_eq_iff)
  have pr8: "printed ?st8 = printed st6" by simp
  show ?thesis
    using run fs8 pr8 pr6 by (intro exI [of _ ?st8]) (simp only: simp_thms)
qed

lemma split_class_missing:
  assumes src: "fs st (src_path c) = None"
  shows "\<exists>st'. split_class draw c st = Inr st'
           \<and> fs st' = (fs st)
                (train_path c \<mapsto> listing_or_empty (fs st) (train_path c),
                 test_path c \<mapsto> listing_or_empty (fs st) (test_path c))
           \<and> printed st' = printed st @
                [''\<newline>--- Splitting Class: '' @ class_name c @ '' ---'',
                 ''[Error] Missing source folder: '' @ src_path c]"
proof -
  define st3 where "st3 = makedirs (test_path c) (makedirs (train_path c)
      (print_line (''\<newline>--- Splitting Class: '' @ class_name c @ '' ---'') st))"
  have fs3: "fs st3 = (fs st)(train_path c \<mapsto> listing_or_empty (fs st) (train_path c),
                              test_path c \<mapsto> listing_or_empty (fs st) (test_path c))"
    by (simp add: st3_def fs_makedirs listing_or_empty_def paths_distinct)
  have src3: "fs st3 (src_path c) = None"
    by (simp add: fs3 src paths_distinct)
  have run: "split_class draw c st
               = Inr (print_line (''[Error] Missing source folder: '' @ src_path c) st3)"
    apply (unfold split_class_def Let_def)
    apply (fold src_path_def train_path_def test_path_def)
    apply (fold st3_def)
    apply (simp only: src3 option.case)
    done
  have pr: "printed (print_line (''[Error] Missing source folder: '' @ src_path c) st3)
              = printed st @ [''\<newline>--- Splitting Class: '' @ class_name c @ '' ---'',
                              ''[Error] Missing source folder: '' @ src_path c]"
    by (simp add: st3_def)
  show ?thesis
    using run fs3 pr
    by (intro exI [of _ "print_line (''[Error] Missing source folder: '' @ src_path c) st3"])
       (simp only: fs_print_line simp_thms)
qed

lemma split_class_fs:
  "\<exists>st'. split_class draw c st = Inr st'
     \<and> (\<forall>p. p \<noteq> train_path c \<longrightarrow> p \<noteq> test_path c \<longrightarrow> fs st' p = fs st p)
     \<and> (\<forall>entries f data. fs st (src_path c) = Some entries \<longrightarrow> map_of entries f = Some data \<longrightarrow>
            is_image_name f \<longrightarrow> copied_in (fs st') c f data)"
proof (cases "fs st (src_path c)")
  case None
  from split_class_missing [OF None, of draw] obtain st' where
    st': "split_class draw c st = Inr st'"
         "fs st' = (fs st)(train_path c \<mapsto> listing_or_empty (fs st) (train_path c),
                          test_path c \<mapsto> listing_or_empty (fs st) (test_path c))"
    by blast
  show ?thesis
    using st' None by (intro exI [of _ st']) simp
next
  case (Some entries)
  define files where "files = filter is_image_name (map fst entries)"
  from split_class_present [OF Some files_def, of draw] obtain st' where
    st': "split_class draw c st = Inr st'"
         "fs st' = (fs st)
                (train_path c \<mapsto> put_all entries (train_files draw files)
                                   (listing_or_empty (fs st) (train_path c)),
                 test_path c \<mapsto> put_all entries (test_files draw files)
                                  (listing_or_empty (fs st) (test_path c)))"
    by blast
  have sub: "set files \<subseteq> fst ` set entries"
    by (auto simp: files_def)
  have copied: "copied_in (fs st') c f data"
    if f: "map_of entries f = Some data" "is_image_name f" for f data
  proof -
    have "f \<in> set files"
      using f by (auto simp: files_def dest: map_of_SomeD intro: rev_image_eqI)
    then have "f \<in> set (test_files draw files @ train_files draw files)"
      by (simp only: split_append set_shuffle)
    then consider "f \<in> set (test_files draw files)" | "f \<in> set (train_files draw files)"
      by auto
    then show ?thesis
    proof cases
      case 1
      have "map_of (put_all entries (test_files draw files)
               (listing_or_empty (fs st) (test_path c))) f = Some data"
        using 1 f(1) test_files_subset [of draw files] sub
        by (subst map_of_put_all) auto
      then show ?thesis
        by (simp add: copied_in_def holds_file_def st'(2))
    next
      case 2
      have "map_of (put_all entries (train_files draw files)
               (listing_or_empty (fs st) (train_path c))) f = Some data"
        using 2 f(1) train_files_subset [of draw files] sub
        by (subst map_of_put_all) auto
      then show ?thesis
        by (simp add: copied_in_def holds_file_def st'(2) paths_distinct)
    qed
  qed
  show ?thesis
    using st' Some copied by (intro exI [of _ st']) simp
qed

lemma copied_in_cong:
  "F' (test_path c) = F (test_path c) \<Longrightarrow> F' (train_path c) = F (train_path c) \<Longrightarrow>
     copied_in F' c f data = copied_in F c f data"
  by (simp add: copied_in_def holds_file_def)

lemma split_classes_fs:
  "distinct cs \<Longrightarrow>
   \<exists>st'. split_classes draw cs st = Inr st'
     \<and> (\<forall>p. p \<notin> train_path ` set cs \<longrightarrow> p \<notin> test_path ` set cs \<longrightarrow> fs st' p = fs st p)
     \<and> (\<forall>c \<in> set cs. \<forall>entries f data. fs st (src_path c) = Some entries \<longrightarrow>
            map_of entries f = Some data \<longrightarrow> is_image_name f \<longrightarrow> copied_in (fs st') c f data)"
proof (induction cs arbitrary: st)
  case Nil
  show ?case by simp
next
  case (Cons c cs)
  from split_class_fs [of "draw c" c st] obtain st1 where
    run1: "split_class (draw c) c st = Inr st1"
    and frame1: "\<And>p. p \<noteq> train_path c \<Longrightarrow> p \<noteq> test_path c \<Longrightarrow> fs st1 p = fs st p"
    and copy1: "\<And>entries f data. fs st (src_path c) = Some entries \<Longrightarrow>
            map_of entries f = Some data \<Longrightarrow> is_image_name f \<Longrightarrow> copied_in (fs st1) c f data"
    by blast
  from Cons.prems have dist: "distinct cs" and notin: "c \<notin> set cs" by simp_all
  from Cons.IH [OF dist, of st1] obtain st' where
    run2: "split_classes draw cs st1 = Inr st'"
    and frame2: "\<And>p. p \<notin> train_path ` set cs \<Longrightarrow> p \<notin> test_path ` set cs \<Longrightarrow> fs st' p = fs st1 p"
    and copy2: "\<And>k entries f data. k \<in> set cs \<Longrightarrow> fs st1 (src_path k) = Some entries \<Longrightarrow>
            map_of entries f = Some data \<Longrightarrow> is_image_name f \<Longrightarrow> copied_in (fs st') k f data"
    by blast
  have run: "split_classes draw (c # cs) st = Inr st'"
    by (simp add: run1 run2)
  have frame: "fs st' p = fs st p"
    if "p \<notin> train_path ` set (c # cs)" "p \<notin> test_path ` set (c # cs)" for p
    using that frame1 [of p] frame2 [of p] by auto
  have keep: "fs st' (test_path c) = fs st1 (test_path c)" "fs st' (train_path c) = fs st1 (train_path c)"
    using notin by (auto intro!: frame2 simp: paths_distinct)
  have copied: "copied_in (fs st') k f data"
    if "k \<in> set (c # cs)" "fs st (src_path k) = Some entries" "map_of entries f = Some data"
       "is_image_name f" for k entries f data
  proof (cases "k = c")
    case True
    then show ?thesis
      using copy1 [OF that(2) [unfolded True] that(3,4)] copied_in_cong [OF keep] by simp
  next
    case False
    then have k: "k \<in> set cs" using that(1) by simp
    have "fs st1 (src_path k) = fs st (src_path k)"
      by (rule frame1) (simp_all add: paths_distinct)
    then show ?thesis
      using copy2 [OF k _ that(3,4)] that(2) by simp
  qed
  show ?case
    using run frame copied by (intro exI [of _ st']) blast
qed

text \<open>
  C10, amended.  \<open>split_dataset\<close> always runs to its end and leaves every source folder
  \<open>raw_data/<class>\<close> exactly as it was, names and contents; every image file of a source
  folder (a name ending in \<open>.png\<close>, \<open>.jpg\<close> or \<open>.jpeg\<close> in any letter case) is
  afterwards present, with the same contents, in the test or the train folder of its
  class (it is copied, not moved).
\<close>

theorem split_keeps_source:
  "\<exists>st'. split_dataset draw st = Inr st'
     \<and> (\<forall>c. fs st' (src_path c) = fs st (src_path c))
     \<and> (\<forall>c entries f data. fs st (src_path c) = Some entries \<longrightarrow>
            map_of entries f = Some data \<longrightarrow> is_image_name f \<longrightarrow> copied_in (fs st') c f data)"
proof -
  define st2 where "st2 =
     (let st1 = (if fs st TRAIN_DIR = None then st\<lparr>fs := (fs st)(TRAIN_DIR \<mapsto> [])\<rparr> else st)
      in (if fs st1 TEST_DIR = None then st1\<lparr>fs := (fs st1)(TEST_DIR \<mapsto> [])\<rparr> else st1))"
  have src2: "fs st2 (src_path c) = fs st (src_path c)" for c
    by (simp add: st2_def Let_def paths_distinct)
  have dist: "distinct CLASSES" by (simp add: CLASSES_def)
  have all: "c \<in> set CLASSES" for c by (cases c) (simp_all add: CLASSES_def)
  from split_classes_fs [OF dist, of draw st2] obtain st3 where
    run3: "split_classes draw CLASSES st2 = Inr st3"
    and frame3: "\<And>p. p \<notin> train_path ` set CLASSES \<Longrightarrow> p \<notin> test_path ` set CLASSES \<Longrightarrow>
                   fs st3 p = fs st2 p"
    and copy3: "\<And>c entries f data. c \<in> set CLASSES \<Longrightarrow> fs st2 (src_path c) = Some entries \<Longrightarrow>
            map_of entries f = Some data \<Longrightarrow> is_image_name f \<Longrightarrow> copied_in (fs st3) c f data"
    by blast
  let ?st' = "print_line (''Use '' @ [CHR 0x27] @ TEST_DIR @ [CHR 0x27] @ '' for Script 4 (Testing Accuracy)'')
                 (print_line (''Use '' @ [CHR 0x27] @ TRAIN_DIR @ [CHR 0x27]
                               @ '' for Script 1 & 2 (Building Matrix/Centroids)'')
                 (print_line ''\<newline>[Done] Dataset split complete.'' st3))"
  have run: "split_dataset draw st = Inr ?st'"
    apply (unfold split_dataset_def Let_def)
    apply (fold st2_def [unfolded Let_def])
    apply (simp only: run3 sum.case)
    done
  have fs': "fs ?st' = fs st3" by simp
  have src3: "fs st3 (src_path c) = fs st (src_path c)" for c
  proof -
    have "src_path c \<notin> train_path ` set CLASSES" "src_path c \<notin> test_path ` set CLASSES"
      by (auto simp: paths_distinct)
    then have "fs st3 (src_path c) = fs st2 (src_path c)" by (rule frame3)
    then show ?thesis by (simp only: src2)
  qed
  have copied: "copied_in (fs st3) c f data"
    if "fs st (src_path c) = Some entries" "map_of entries f = Some data" "is_image_name f"
    for c entries f data
    using copy3 [OF all, of c entries f data] that src2 [of c] by simp
  show ?thesis
    using run src3 copied by (intro exI [of _ ?st']) (simp only: fs', blast)
qed

lemma small_slice_src:
  "fs small_dataset (src_path pizza_slice)
     = Some [(''a.png'', [1]), (''b.JPG'', [2]), (''notes.txt'', [3])]"
  by (simp add: small_dataset_def paths_simps)

lemma small_slice_files:
  "filter is_image_name (map fst [(''a.png'', [1::nat]), (''b.JPG'', [2]), (''notes.txt'', [3])])
     = [''a.png'', ''b.JPG'']"
  by code_simp

lemma image_name_a: "is_image_name ''a.png''"
  by code_simp

text \<open>
  C9, as stated, fails: on \<open>small_dataset\<close> every class has fewer than \<open>SPLIT_COUNT\<close>
  images (the first one has two), the split runs to its end, and none of the lines it
  prints is a warning.
\<close>

theorem no_warning_counterexample:
  "length (filter is_image_name (map fst [(''a.png'', [1::nat]), (''b.JPG'', [2]), (''notes.txt'', [3])]))
      < SPLIT_COUNT
     \<and> emitted_warnings (split_dataset (\<lambda>c i. 0) small_dataset) = Some []"
  by code_simp

lemma contains_first_char:
  assumes "contains s (a # sub)"
  shows "a \<in> set s"
proof -
  from assms obtain i where "take (length (a # sub)) (drop i s) = a # sub"
    by (auto simp: contains_def list_ex_iff)
  then have "a \<in> set (take (length (a # sub)) (drop i s))" by simp
  then have "a \<in> set (drop i s)" by (rule in_set_takeD)
  then show ?thesis by (rule in_set_dropD)
qed

lemma show_nat_digits: "set (show_nat n) \<subseteq> digit_char ` {0..<10}"
proof (induction n rule: show_nat.induct)
  case (1 n)
  show ?case
  proof (cases "n < 10")
    case True
    then show ?thesis by (subst show_nat.simps) auto
  next
    case False
    have "n mod 10 \<in> {0..<10}" by simp
    with 1 False show ?thesis by (subst show_nat.simps) auto
  qed
qed

lemma lower_digits: "list_all (\<lambda>k. lower_char (digit_char k) \<noteq> CHR ''w'') [0..<10]"
  by code_simp

lemma lower_digit: "k < 10 \<Longrightarrow> lower_char (digit_char k) \<noteq> CHR ''w''"
  using lower_digits by (simp add: list_all_iff del: digit_char.simps)

lemma no_w_in_number: "CHR ''w'' \<notin> set (lower (show_nat n))"
proof
  assume "CHR ''w'' \<in> set (lower (show_nat n))"
  then obtain ch where ch: "ch \<in> set (show_nat n)" "lower_char ch = CHR ''w''"
    by (auto simp: lower_def)
  with show_nat_digits [of n] obtain k where "k < 10" "ch = digit_char k" by auto
  with ch(2) lower_digit [of k] show False by simp
qed

lemma count_line_no_warning:
  assumes "CHR ''w'' \<notin> set (lower pre)" and "CHR ''w'' \<notin> set (lower post)"
  shows "\<not> is_warning (pre @ show_nat n @ post)"
proof
  assume "is_warning (pre @ show_nat n @ post)"
  then have "CHR ''w'' \<in> set (lower (pre @ show_nat n @ post))"
    unfolding is_warning_def by (rule contains_first_char)
  then show False
    using assms no_w_in_number [of n] by (auto simp: lower_def)
qed

lemma header_no_warning:
  "\<not> is_warning (''\<newline>--- Splitting Class: '' @ class_name c @ '' ---'')"
  by (cases c) (simp_all, code_simp+)

lemma count_line_parts:
  "CHR ''w'' \<notin> set (lower ''  -> Total Images: '')"
  "CHR ''w'' \<notin> set (lower [])"
  "CHR ''w'' \<notin> set (lower ''  -> Training Set: '')"
  "CHR ''w'' \<notin> set (lower '' (Calculating Centroids)'')"
  "CHR ''w'' \<notin> set (lower ''  -> Testing Set : '')"
  "CHR ''w'' \<notin> set (lower '' (Testing Distances)'')"
  by code_simp+

lemma class_lines_no_warning: "filter is_warning (class_lines c n_total n_train n_test) = []"
proof -
  have "\<not> is_warning (''  -> Total Images: '' @ show_nat n_total @ [])"
    by (rule count_line_no_warning) (rule count_line_parts)+
  then have 1: "\<not> is_warning (''  -> Total Images: '' @ show_nat n_total)"
    by simp
  have 2: "\<not> is_warning (''  -> Training Set: '' @ show_nat n_train @ '' (Calculating Centroids)'')"
    by (rule count_line_no_warning) (rule count_line_parts)+
  have 3: "\<not> is_warning (''  -> Testing Set : '' @ show_nat n_test @ '' (Testing Distances)'')"
    by (rule count_line_no_warning) (rule count_line_parts)+
  show ?thesis
    using 1 2 3 header_no_warning [of c] by (simp add: class_lines_def)
qed

text \<open>
  C9, amended.  For every per-class file list of size \<open>n < SPLIT_COUNT\<close>, the split of the
  class does not fail: the train subset is empty, the test subset holds all \<open>n\<close> files, every
  image of the source folder is in the test folder afterwards and nothing is added to
  the train folder; the lines printed for the class are the header and the three counts
  (total \<open>n\<close>, training 0, testing \<open>n\<close>), and no warning.
\<close>

theorem split_small_class:
  assumes src: "fs st (src_path c) = Some entries"
    and files: "files = filter is_image_name (map fst entries)"
    and small: "length files < SPLIT_COUNT"
  shows "train_files draw files = [] \<and> mset (test_files draw files) = mset files
     \<and> (\<exists>st'. split_class draw c st = Inr st'
            \<and> printed st' = printed st @ class_lines c (length files) 0 (length files)
            \<and> fs st' (train_path c) = Some (listing_or_empty (fs st) (train_path c))
            \<and> (\<forall>f data. map_of entries f = Some data \<longrightarrow> is_image_name f \<longrightarrow>
                  holds_file (fs st') (test_path c) f data))
     \<and> filter is_warning (class_lines c (length files) 0 (length files)) = []"
proof (intro conjI)
  show "filter is_warning (class_lines c (length files) 0 (length files)) = []"
    by (rule class_lines_no_warning)
  show tr: "train_files draw files = []"
    using small by (simp add: train_files_def length_shuffle)
  have te: "test_files draw files = shuffle draw files"
    using small by (simp add: test_files_def length_shuffle)
  show "mset (test_files draw files) = mset files"
    by (simp only: te mset_shuffle)
  from split_class_present [OF src files, of draw] obtain st' where
    st': "split_class draw c st = Inr st'"
         "fs st' = (fs st)
                (train_path c \<mapsto> put_all entries (train_files draw files)
                                   (listing_or_empty (fs st) (train_path c)),
                 test_path c \<mapsto> put_all entries (test_files draw files)
                                  (listing_or_empty (fs st) (test_path c)))"
         "printed st' = printed st @ class_lines c (length files)
                 (length (train_files draw files)) (length (test_files draw files))"
    by blast
  have pr: "printed st' = printed st @ class_lines c (length files) 0 (length files)"
    using st'(3) by (simp add: tr te length_shuffle)
  have trn: "fs st' (train_path c) = Some (listing_or_empty (fs st) (train_path c))"
    by (simp add: st'(2) tr paths_distinct)
  have sub: "set (test_files draw files) \<subseteq> fst ` set entries"
    using test_files_subset [of draw files] by (auto simp: files)
  have held: "holds_file (fs st') (test_path c) f data"
    if f: "map_of entries f = Some data" "is_image_name f" for f data
  proof -
    have "f \<in> set files"
      using f by (auto simp: files dest: map_of_SomeD intro: rev_image_eqI)
    then have "f \<in> set (test_files draw files)"
      by (simp only: te set_shuffle)
    then have "map_of (put_all entries (test_files draw files)
               (listing_or_empty (fs st) (test_path c))) f = Some data"
      using f(1) sub by (subst map_of_put_all) auto
    then show ?thesis
      by (simp add: holds_file_def st'(2))
  qed
  show "\<exists>st'. split_class draw c st = Inr st'
            \<and> printed st' = printed st @ class_lines c (length files) 0 (length files)
            \<and> fs st' (train_path c) = Some (listing_or_empty (fs st) (train_path c))
            \<and> (\<forall>f data. map_of entries f = Some data \<longrightarrow> is_image_name f \<longrightarrow>
                  holds_file (fs st') (test_path c) f data)"
    using st'(1) pr trn held by (intro exI [of _ st']) blast
qed

theorem split_small_class_witness:
  "fs small_dataset (src_path pizza_slice)
       = Some [(''a.png'', [1]), (''b.JPG'', [2]), (''notes.txt'', [3])]
     \<and> length [''a.png'', ''b.JPG''] < SPLIT_COUNT
     \<and> train_files (\<lambda>i. 0) [''a.png'', ''b.JPG''] = []
     \<and> (\<exists>st'. split_class (\<lambda>i. 0) pizza_slice small_dataset = Inr st'
            \<and> printed st' = class_lines pizza_slice 2 0 2
            \<and> holds_file (fs st') (test_path pizza_slice) ''a.png'' [1])
     \<and> filter is_warning (class_lines pizza_slice 2 0 2) = []"
proof -
  have small: "length [''a.png'', ''b.JPG''] < SPLIT_COUNT"
    by (simp add: SPLIT_COUNT_def)
  note inst = split_small_class [OF small_slice_src small_slice_files [symmetric] small, of "\<lambda>i. 0"]
  from inst [THEN conjunct2, THEN conjunct2, THEN conjunct1] obtain st' where
    st': "split_class (\<lambda>i. 0) pizza_slice small_dataset = Inr st'
            \<and> printed st' = printed small_dataset @ class_lines pizza_slice (length [''a.png'', ''b.JPG'']) 0
                   (length [''a.png'', ''b.JPG''])
            \<and> fs st' (train_path pizza_slice)
                 = Some (listing_or_empty (fs small_dataset) (train_path pizza_slice))
            \<and> (\<forall>f data. map_of [(''a.png'', [1]), (''b.JPG'', [2]), (''notes.txt'', [3])] f = Some data \<longrightarrow>
                  is_image_name f \<longrightarrow> holds_file (fs st') (test_path pizza_slice) f data)" ..
  have pr: "printed st' = class_lines pizza_slice 2 0 2"
    using st' [THEN conjunct2, THEN conjunct1] by (simp add: small_dataset_def numeral_2_eq_2)
  have held: "holds_file (fs st') (test_path pizza_slice) ''a.png'' [1]"
    by (rule st' [THEN conjunct2, THEN conjunct2, THEN conjunct2, rule_format])
       (simp_all add: image_name_a)
  have nw: "filter is_warning (class_lines pizza_slice 2 0 2) = []"
    using inst [THEN conjunct2, THEN conjunct2, THEN conjunct2] by (simp add: numeral_2_eq_2)
  show ?thesis
    using small_slice_src small inst [THEN conjunct1] st' [THEN conjunct1] pr held nw
    by (intro conjI exI [of _ st']) assumption+
qed

theorem split_keeps_source_witness:
  "\<exists>st'. split_dataset (\<lambda>c i. 0) small_dataset = Inr st'
     \<and> fs st' (src_path pizza_slice) = Some [(''a.png'', [1]), (''b.JPG'', [2]), (''notes.txt'', [3])]
     \<and> copied_in (fs st') pizza_slice ''a.png'' [1]"
proof -
  from split_keeps_source [of "\<lambda>c i. 0" small_dataset] obtain st' where
    st': "split_dataset (\<lambda>c i. 0) small_dataset = Inr st'
     \<and> (\<forall>c. fs st' (src_path c) = fs small_dataset (src_path c))
     \<and> (\<forall>c entries f data. fs small_dataset (src_path c) = Some entries \<longrightarrow>
            map_of entries f = Some data \<longrightarrow> is_image_name f \<longrightarrow> copied_in (fs st') c f data)" ..
  have src: "fs st' (src_path pizza_slice) = Some [(''a.png'', [1]), (''b.JPG'', [2]), (''notes.txt'', [3])]"
    using st' [THEN conjunct2, THEN conjunct1, rule_format, of pizza_slice]
    by (simp only: small_slice_src)
  have cp: "copied_in (fs st') pizza_slice ''a.png'' [1]"
    by (rule st' [THEN conjunct2, THEN conjunct2, rule_format, OF small_slice_src])
       (simp_all add: image_name_a)
  show ?thesis
    using st' [THEN conjunct1] src cp by (intro exI [of _ st'] conjI) assumption+
qed

text \<open>
  C10, as stated for each file of \<open>raw_data/<class>\<close>, fails: the file list of a class
  holds only the names with an image extension.  On \<open>small_dataset\<close> the source folder
  of \<open>pizza_slice\<close> holds \<open>notes.txt\<close>; after the split the test folder of the class holds
  \<open>b.JPG\<close> and \<open>a.png\<close>, the train folder is empty, and \<open>notes.txt\<close> is in neither.
\<close>

theorem split_keeps_source_counterexample:
  "holds_file (fs small_dataset) (src_path pizza_slice) ''notes.txt'' [3]
     \<and> copied_after (split_dataset (\<lambda>c i. 0) small_dataset) pizza_slice ''notes.txt'' [3] = Some False
     \<and> folder_names (split_dataset (\<lambda>c i. 0) small_dataset) (test_path pizza_slice)
           = Some [''b.JPG'', ''a.png'']
     \<and> folder_names (split_dataset (\<lambda>c i. 0) small_dataset) (train_path pizza_slice) = Some []"
  by code_simp

theorem split_partition_witness:
  "distinct [''a'', ''b'', ''c'', ''d'', ''e'', ''f'', ''g'']
     \<and> SPLIT_COUNT \<le> length [''a'', ''b'', ''c'', ''d'', ''e'', ''f'', ''g'']
     \<and> length (test_files (\<lambda>i. 0) [''a'', ''b'', ''c'', ''d'', ''e'', ''f'', ''g'']) = 5
     \<and> length (train_files (\<lambda>i. 0) [''a'', ''b'', ''c'', ''d'', ''e'', ''f'', ''g'']) = 2
     \<and> set (train_files (\<lambda>i. 0) [''a'', ''b'', ''c'', ''d'', ''e'', ''f'', ''g''])
          \<inter> set (test_files (\<lambda>i. 0) [''a'', ''b'', ''c'', ''d'', ''e'', ''f'', ''g'']) = {}"
proof -
  have d: "distinct [''a'', ''b'', ''c'', ''d'', ''e'', ''f'', ''g'']" by simp
  have n: "SPLIT_COUNT \<le> length [''a'', ''b'', ''c'', ''d'', ''e'', ''f'', ''g'']"
    by (simp add: SPLIT_COUNT_def)
  note inst = split_partition [OF d n, of "\<lambda>i. 0"]
  have l1: "length (test_files (\<lambda>i. 0) [''a'', ''b'', ''c'', ''d'', ''e'', ''f'', ''g'']) = 5"
    using inst by (simp add: SPLIT_COUNT_def)
  have l2: "length (train_files (\<lambda>i. 0) [''a'', ''b'', ''c'', ''d'', ''e'', ''f'', ''g'']) = 2"
    using inst by (simp add: SPLIT_COUNT_def)
  show ?thesis
    using d n l1 l2 inst by (intro conjI) (simp_all only: simp_thms)
qed

section \<open>Claims about the argmin decision rule\<close>

lemma min_scan_first_minimum:
  "(min_scan best rest = fst best \<and> (\<forall>x \<in> set rest. snd best \<le> snd x))
   \<or> (\<exists>pre kv post. rest = pre @ kv # post \<and> min_scan best rest = fst kv \<and> snd kv < snd best
         \<and> (\<forall>x \<in> set pre. snd kv < snd x) \<and> (\<forall>x \<in> set post. snd kv \<le> snd x))"
proof (induction rest arbitrary: best)
  case Nil
  show ?case by simp
next
  case (Cons a rest)
  show ?case
  proof (cases "snd a < snd best")
    case True
    from Cons.IH [of a] show ?thesis
    proof (elim disjE exE conjE)
      assume "min_scan a rest = fst a" "\<forall>x \<in> set rest. snd a \<le> snd x"
      then have "a # rest = [] @ a # rest \<and> min_scan best (a # rest) = fst a \<and> snd a < snd best
         \<and> (\<forall>x \<in> set []. snd a < snd x) \<and> (\<forall>x \<in> set rest. snd a \<le> snd x)"
        using True by simp
      then show ?thesis by blast
    next
      fix pre kv post
      assume "rest = pre @ kv # post" "min_scan a rest = fst kv" "snd kv < snd a"
        "\<forall>x \<in> set pre. snd kv < snd x" "\<forall>x \<in> set post. snd kv \<le> snd x"
      then have "a # rest = (a # pre) @ kv # post \<and> min_scan best (a # rest) = fst kv
         \<and> snd kv < snd best
         \<and> (\<forall>x \<in> set (a # pre). snd kv < snd x) \<and> (\<forall>x \<in> set post. snd kv \<le> snd x)"
        using True by simp
      then show ?thesis by blast
    qed
  next
    case False
    from Cons.IH [of best] show ?thesis
    proof (elim disjE exE conjE)
      assume "min_scan best rest = fst best" "\<forall>x \<in> set rest. snd best \<le> snd x"
      then show ?thesis using False by simp
    next
      fix pre kv post
      assume "rest = pre @ kv # post" "min_scan best rest = fst kv" "snd kv < snd best"
        "\<forall>x \<in> set pre. snd kv < snd x" "\<forall>x \<in> set post. snd kv \<le> snd x"
      then have "a # rest = (a # pre) @ kv # post \<and> min_scan best (a # rest) = fst kv
         \<and> snd kv < snd best
         \<and> (\<forall>x \<in> set (a # pre). snd kv < snd x) \<and> (\<forall>x \<in> set post. snd kv \<le> snd x)"
        using False by simp
      then show ?thesis by blast
    qed
  qed
qed

lemma dict_min_key_first_minimum:
  assumes "d \<noteq> []"
  shows "\<exists>pre k v post. d = pre @ (k, v) # post \<and> dict_min_key d = Inr k
           \<and> (\<forall>x \<in> set pre. v < snd x) \<and> (\<forall>x \<in> set post. v \<le> snd x)"
proof -
  from assms obtain best rest where d: "d = best # rest" by (cases d) auto
  have run: "dict_min_key d = Inr (min_scan best rest)" by (simp add: dict_min_key_def d)
  from min_scan_first_minimum [of best rest] show ?thesis
  proof (elim disjE exE conjE)
    assume "min_scan best rest = fst best" "\<forall>x \<in> set rest. snd best \<le> snd x"
    then have "d = [] @ (fst best, snd best) # rest \<and> dict_min_key d = Inr (fst best)
           \<and> (\<forall>x \<in> set []. snd best < snd x) \<and> (\<forall>x \<in> set rest. snd best \<le> snd x)"
      using run d by simp
    then show ?thesis by blast
  next
    fix pre kv post
    assume "rest = pre @ kv # post" "min_scan best rest = fst kv" "snd kv < snd best"
      "\<forall>x \<in> set pre. snd kv < snd x" "\<forall>x \<in> set post. snd kv \<le> snd x"
    then have "d = (best # pre) @ (fst kv, snd kv) # post \<and> dict_min_key d = Inr (fst kv)
           \<and> (\<forall>x \<in> set (best # pre). snd kv < snd x) \<and> (\<forall>x \<in> set post. snd kv \<le> snd x)"
      using run d by simp
    then show ?thesis by blast
  qed
qed

lemma compute_dists_classes:
  assumes "compute_dists centroids x CLASSES (\<lambda>m. []) = Inr dists"
  shows "\<exists>dv. (\<forall>m k. dist_to centroids m x k = Inr (dv m k))
              \<and> (\<forall>m. dists m = map (\<lambda>k. (k, dv m k)) CLASSES)"
proof -
  define dv where "dv m k = (case dist_to centroids m x k of Inl e \<Rightarrow> 0 | Inr d \<Rightarrow> d)" for m k
  have ok: "dist_to centroids m x k = Inr (dv m k)" for m k
    using assms
    by (cases m; cases k)
       (auto simp: CLASSES_def dist_to_def distance_def dv_def Let_def
             split: option.splits sum.splits)
  have ds: "dists m = map (\<lambda>k. (k, dv m k)) CLASSES" for m
    using assms
    by (cases m)
       (auto simp: CLASSES_def dist_to_def distance_def dv_def Let_def
             split: option.splits sum.splits)
  from ok ds show ?thesis by blast
qed

lemma compute_dists_error:
  assumes "compute_dists centroids x CLASSES (\<lambda>m. []) = Inl e"
  shows "\<exists>m k. dist_to centroids m x k = Inl e"
proof -
  have "dist_to centroids Euclidean x pizza_slice = Inl e
      \<or> dist_to centroids Manhattan x pizza_slice = Inl e
      \<or> dist_to centroids Cosine x pizza_slice = Inl e
      \<or> dist_to centroids Euclidean x whole_pizza = Inl e
      \<or> dist_to centroids Manhattan x whole_pizza = Inl e
      \<or> dist_to centroids Cosine x whole_pizza = Inl e
      \<or> dist_to centroids Euclidean x pizza_box = Inl e
      \<or> dist_to centroids Manhattan x pizza_box = Inl e
      \<or> dist_to centroids Cosine x pizza_box = Inl e"
    using assms
    by (auto simp: CLASSES_def dist_to_def distance_def Let_def
             split: option.splits sum.splits)
  then show ?thesis by blast
qed

lemma compute_dists_total:
  assumes "\<forall>m k. dist_to centroids m x k = Inr (dv m k)"
  shows "compute_dists centroids x CLASSES (\<lambda>m. []) \<noteq> Inl e"
proof
  assume "compute_dists centroids x CLASSES (\<lambda>m. []) = Inl e"
  from compute_dists_error [OF this] obtain m k where "dist_to centroids m x k = Inl e"
    by blast
  with assms show False by simp
qed

lemma decide_metrics:
  assumes "\<forall>m. dict_min_key (dists m) = Inr (p m)"
  shows "\<exists>st'. decide dists t METRICS (preds0, st)
                 = Inr (preds0(Euclidean \<mapsto> p Euclidean, Manhattan \<mapsto> p Manhattan, Cosine \<mapsto> p Cosine), st')
           \<and> results st' = results st \<and> total_images st' = total_images st
           \<and> (\<forall>m. correct_counts st' m = correct_counts st m + (if p m = t then 1 else 0))
           \<and> (\<forall>m t' q. confusion_matrices st' m t' q
                  = confusion_matrices st m t' q + (if t' = t \<and> q = p m then 1 else 0))"
proof -
  obtain ps st' where run: "decide dists t METRICS (preds0, st) = Inr (ps, st')"
    using assms by (auto simp: METRICS_def Let_def)
  have ps: "ps = preds0(Euclidean \<mapsto> p Euclidean, Manhattan \<mapsto> p Manhattan, Cosine \<mapsto> p Cosine)"
    using run assms by (auto simp: METRICS_def Let_def)
  have r: "results st' = results st" and tot: "total_images st' = total_images st"
    using run assms by (auto simp: METRICS_def Let_def)
  have cc: "correct_counts st' m = correct_counts st m + (if p m = t then 1 else 0)" for m
    using run assms by (cases m) (auto simp: METRICS_def Let_def)
  have cm: "confusion_matrices st' m t' q
              = confusion_matrices st m t' q + (if t' = t \<and> q = p m then 1 else 0)" for m t' q
    using run assms by (cases m) (auto simp: METRICS_def Let_def)
  show ?thesis
    using run ps r tot cc cm by (intro exI [of _ st']) simp
qed

lemma decide_error:
  assumes "decide dists t METRICS (preds0, st) = Inl e"
  shows "\<exists>m. dict_min_key (dists m) = Inl e"
proof -
  have "dict_min_key (dists Euclidean) = Inl e \<or> dict_min_key (dists Manhattan) = Inl e
          \<or> dict_min_key (dists Cosine) = Inl e"
    using assms by (auto simp: METRICS_def Let_def split: sum.splits)
  then show ?thesis by blast
qed

lemma make_row_ok:
  assumes "\<forall>m. preds m = Some (p m)" and "\<forall>m. dists m = map (\<lambda>k. (k, dv m k)) CLASSES"
  shows "\<exists>row. make_row f t preds dists = Inr row \<and> Image row = f \<and> True_Class row = t
           \<and> (\<forall>m. pred_of row m = p m)"
proof -
  have g: "dict_get (dists m) k = Inr (dv m k)" for m k
    using assms(2) by (cases k) (simp_all add: dict_get_def CLASSES_def)
  have pg: "pred_get preds m = Inr (p m)" for m
    using assms(1) by (simp add: pred_get_def)
  let ?row = "\<lparr>Image = f, True_Class = t,
             Pred_E = p Euclidean, Pred_M = p Manhattan, Pred_C = p Cosine,
             Dist_E_Slice = py_round (dv Euclidean pizza_slice) 2,
             Dist_E_Whole = py_round (dv Euclidean whole_pizza) 2,
             Dist_E_Box = py_round (dv Euclidean pizza_box) 2,
             Dist_C_Slice = py_round (dv Cosine pizza_slice) 4,
             Dist_C_Whole = py_round (dv Cosine whole_pizza) 4,
             Dist_C_Box = py_round (dv Cosine pizza_box) 4\<rparr>"
  have "make_row f t preds dists = Inr ?row"
    by (simp add: make_row_def g pg)
  moreover have "\<forall>m. pred_of ?row m = p m"
    by (auto simp: pred_of_def split: metric.splits)
  ultimately show ?thesis by (intro exI [of _ ?row]) simp
qed

lemma sample_err:
  assumes "compute_dists centroids (snd fx) CLASSES (\<lambda>m. []) = Inl e"
  shows "row_of centroids t fx = Inl e \<and> (\<forall>st. process_file centroids t fx st = Inl e)
           \<and> (\<exists>m k. dist_to centroids m (snd fx) k = Inl e)"
  using assms compute_dists_error [OF assms]
  by (simp add: row_of_def process_file_def Let_def)

lemma sample_ok:
  assumes cd: "compute_dists centroids (snd fx) CLASSES (\<lambda>m. []) = Inr dists"
  shows "\<exists>row dv. row_of centroids t fx = Inr row \<and> True_Class row = t \<and> Image row = fst fx
           \<and> (\<forall>m k. dist_to centroids m (snd fx) k = Inr (dv m k))
           \<and> (\<forall>m. dict_min_key (map (\<lambda>k. (k, dv m k)) CLASSES) = Inr (pred_of row m))
           \<and> (\<forall>st. \<exists>st'. process_file centroids t fx st = Inr st' \<and> tallied row st st')"
proof -
  from compute_dists_classes [OF cd] obtain dv where
    dv: "\<forall>m k. dist_to centroids m (snd fx) k = Inr (dv m k)"
    and ds: "\<forall>m. dists m = map (\<lambda>k. (k, dv m k)) CLASSES"
    by blast
  define p where "p m = min_scan (pizza_slice, dv m pizza_slice)
                     [(whole_pizza, dv m whole_pizza), (pizza_box, dv m pizza_box)]" for m
  have mk: "\<forall>m. dict_min_key (dists m) = Inr (p m)"
    by (simp add: ds dict_min_key_def CLASSES_def p_def)
  let ?preds = "Map.empty(Euclidean \<mapsto> p Euclidean, Manhattan \<mapsto> p Manhattan, Cosine \<mapsto> p Cosine)"
  have preds: "\<forall>m. ?preds m = Some (p m)"
  proof
    fix m show "?preds m = Some (p m)" by (cases m) simp_all
  qed
  from make_row_ok [OF preds ds, of "fst fx" t] obtain row where
    row: "make_row (fst fx) t ?preds dists = Inr row" "Image row = fst fx" "True_Class row = t"
         "\<forall>m. pred_of row m = p m"
    by blast
  from decide_metrics [OF mk, of t Map.empty init_state] obtain st0 where
    d0: "decide dists t METRICS (Map.empty, init_state) = Inr (?preds, st0)"
    by blast
  have r: "row_of centroids t fx = Inr row"
    by (simp add: row_of_def cd d0 row(1))
  have step: "\<exists>st'. process_file centroids t fx st = Inr st' \<and> tallied row st st'" for st
  proof -
    from decide_metrics [OF mk, of t Map.empty "st\<lparr>total_images := total_images st + 1\<rparr>"]
    obtain st2 where
      d: "decide dists t METRICS (Map.empty, st\<lparr>total_images := total_images st + 1\<rparr>)
            = Inr (?preds, st2)"
      and f: "results st2 = results st" "total_images st2 = total_images st + 1"
        "\<forall>m. correct_counts st2 m = correct_counts st m + (if p m = t then 1 else 0)"
        "\<forall>m t' q. confusion_matrices st2 m t' q
                  = confusion_matrices st m t' q + (if t' = t \<and> q = p m then 1 else 0)"
      by auto
    have "process_file centroids t fx st = Inr (st2\<lparr>results := results st2 @ [row]\<rparr>)"
      using d by (simp add: process_file_def Let_def cd row(1))
    moreover have "tallied row st (st2\<lparr>results := results st2 @ [row]\<rparr>)"
      by (simp add: tallied_def f row)
    ultimately show ?thesis by blast
  qed
  have "\<forall>m. dict_min_key (map (\<lambda>k. (k, dv m k)) CLASSES) = Inr (pred_of row m)"
    using mk ds row(4) by simp
  with r row(2,3) dv step show ?thesis by blast
qed

lemma row_of_Inl:
  assumes "row_of centroids t fx = Inl e"
  shows "(\<forall>st. process_file centroids t fx st = Inl e)
           \<and> (\<exists>m k. dist_to centroids m (snd fx) k = Inl e)"
proof (cases "compute_dists centroids (snd fx) CLASSES (\<lambda>m. [])")
  case (Inl e')
  from sample_err [OF Inl, of t] assms show ?thesis by simp
next
  case (Inr dists)
  from sample_ok [OF Inr, of t] assms show ?thesis by auto
qed

lemma row_of_Inr:
  assumes "row_of centroids t fx = Inr row"
  shows "True_Class row = t \<and> Image row = fst fx
           \<and> (\<exists>dv. (\<forall>m k. dist_to centroids m (snd fx) k = Inr (dv m k))
                  \<and> (\<forall>m. dict_min_key (map (\<lambda>k. (k, dv m k)) CLASSES) = Inr (pred_of row m)))
           \<and> (\<forall>st. \<exists>st'. process_file centroids t fx st = Inr st' \<and> tallied row st st')"
proof (cases "compute_dists centroids (snd fx) CLASSES (\<lambda>m. [])")
  case (Inl e')
  from sample_err [OF Inl, of t] assms show ?thesis by simp
next
  case (Inr dists)
  from sample_ok [OF Inr, of t] obtain row' dv where
    r: "row_of centroids t fx = Inr row'" "True_Class row' = t" "Image row' = fst fx"
       "\<forall>m k. dist_to centroids m (snd fx) k = Inr (dv m k)"
       "\<forall>m. dict_min_key (map (\<lambda>k. (k, dv m k)) CLASSES) = Inr (pred_of row' m)"
       "\<forall>st. \<exists>st'. process_file centroids t fx st = Inr st' \<and> tallied row' st st'"
    by blast
  from r(1) assms have "row' = row" by simp
  with r show ?thesis by blast
qed

lemma tallies_Nil: "tallies [] st st"
  by (simp add: tallies_def)

lemma tallies_Cons: "tallied row st st1 \<Longrightarrow> tallies rows st1 st2 \<Longrightarrow> tallies (row # rows) st st2"
  by (simp add: tallies_def tallied_def)

lemma tallies_append: "tallies r1 st st1 \<Longrightarrow> tallies r2 st1 st2 \<Longrightarrow> tallies (r1 @ r2) st st2"
  by (simp add: tallies_def)

lemma collect_append:
  "collect (xs @ ys) =
     (case collect xs of
        Inl e \<Rightarrow> Inl e
      | Inr as \<Rightarrow> (case collect ys of Inl e \<Rightarrow> Inl e | Inr bs \<Rightarrow> Inr (as @ bs)))"
  by (induction xs) (auto split: sum.splits)

lemma collect_Inr: "collect xs = Inr as \<Longrightarrow> xs = map Inr as"
  by (induction xs arbitrary: as) (auto split: sum.splits)

lemma collect_Inl: "collect xs = Inl e \<Longrightarrow> Inl e \<in> set xs"
  by (induction xs) (auto split: sum.splits)

lemma collect_map_Inr: "collect (map Inr as) = Inr as"
  by (induction as) auto

lemma eval_files_collect:
  "(case collect (map (row_of centroids t) files) of
      Inl e \<Rightarrow> eval_files centroids t files st = Inl e
    | Inr rows \<Rightarrow> (\<exists>st'. eval_files centroids t files st = Inr st' \<and> tallies rows st st'))"
proof (induction files arbitrary: st)
  case Nil
  show ?case by (simp add: tallies_Nil)
next
  case (Cons fx files)
  show ?case
  proof (cases "row_of centroids t fx")
    case (Inl e)
    with row_of_Inl [OF Inl] show ?thesis by simp
  next
    case (Inr row)
    from row_of_Inr [OF Inr] obtain st1 where
      st1: "process_file centroids t fx st = Inr st1" "tallied row st st1"
      by blast
    show ?thesis
    proof (cases "collect (map (row_of centroids t) files)")
      case (Inl e)
      with Cons.IH [of st1] Inr st1 show ?thesis by simp
    next
      case r: (Inr rows)
      with Cons.IH [of st1] obtain st' where
        "eval_files centroids t files st1 = Inr st'" "tallies rows st1 st'"
        by auto
      with Inr r st1 tallies_Cons [of row st st1 rows st'] show ?thesis by simp
    qed
  qed
qed

lemma eval_classes_collect:
  "(case collect (all_rows centroids test_dir cs) of
      Inl e \<Rightarrow> eval_classes centroids test_dir cs st = Inl e
    | Inr rows \<Rightarrow> (\<exists>st'. eval_classes centroids test_dir cs st = Inr st' \<and> tallies rows st st'))"
proof (induction cs arbitrary: st)
  case Nil
  show ?case by (simp add: all_rows_def tallies_Nil)
next
  case (Cons t cs)
  have unfold: "all_rows centroids test_dir (t # cs)
      = map (row_of centroids t) (class_samples test_dir t) @ all_rows centroids test_dir cs"
    by (simp add: all_rows_def)
  have step: "eval_classes centroids test_dir (t # cs) st
      = (case eval_files centroids t (class_samples test_dir t) st of
           Inl e \<Rightarrow> Inl e | Inr st' \<Rightarrow> eval_classes centroids test_dir cs st')"
    by (simp add: class_samples_def split: option.splits)
  show ?case
  proof (cases "collect (map (row_of centroids t) (class_samples test_dir t))")
    case (Inl e)
    with eval_files_collect [of centroids t "class_samples test_dir t" st]
    show ?thesis by (simp add: unfold step collect_append del: eval_classes.simps)
  next
    case r1: (Inr rows1)
    with eval_files_collect [of centroids t "class_samples test_dir t" st] obtain st1 where
      st1: "eval_files centroids t (class_samples test_dir t) st = Inr st1" "tallies rows1 st st1"
      by auto
    show ?thesis
    proof (cases "collect (all_rows centroids test_dir cs)")
      case (Inl e)
      with Cons.IH [of st1] r1 st1 show ?thesis by (simp add: unfold step collect_append del: eval_classes.simps)
    next
      case r2: (Inr rows2)
      with Cons.IH [of st1] obtain st' where
        "eval_classes centroids test_dir cs st1 = Inr st'" "tallies rows2 st1 st'"
        by auto
      with r1 r2 st1 tallies_append [of rows1 st st1 rows2 st'] show ?thesis
        by (simp add: unfold step collect_append del: eval_classes.simps)
    qed
  qed
qed

lemma classes_first_minimum:
  assumes "dict_min_key (map (\<lambda>k. (k, dv k)) CLASSES) = Inr p"
  shows "\<exists>pre post. CLASSES = pre @ p # post \<and> (\<forall>k \<in> set pre. dv p < dv k)
           \<and> (\<forall>k \<in> set post. dv p \<le> dv k)"
proof -
  have ne: "map (\<lambda>k. (k, dv k)) CLASSES \<noteq> []" by (simp add: CLASSES_def)
  from dict_min_key_first_minimum [OF ne] assms obtain pre0 v post0 where
    d: "map (\<lambda>k. (k, dv k)) CLASSES = pre0 @ (p, v) # post0"
    and lt: "\<forall>x \<in> set pre0. v < snd x" and le: "\<forall>x \<in> set post0. v \<le> snd x"
    by auto
  from d obtain pre rest where
    1: "CLASSES = pre @ rest" "map (\<lambda>k. (k, dv k)) pre = pre0"
       "map (\<lambda>k. (k, dv k)) rest = (p, v) # post0"
    by (auto simp: map_eq_append_conv)
  from 1(3) obtain post where 2: "rest = p # post" "v = dv p" "map (\<lambda>k. (k, dv k)) post = post0"
    by (auto simp: map_eq_Cons_conv)
  have "\<forall>k \<in> set pre. dv p < dv k" using lt 1(2) 2(2) by auto
  moreover have "\<forall>k \<in> set post. dv p \<le> dv k" using le 2(2,3) by auto
  ultimately show ?thesis using 1(1) 2(1) by blast
qed

lemma process_file_Inr:
  assumes "process_file centroids t fx st = Inr st'"
  shows "\<exists>row. row_of centroids t fx = Inr row \<and> tallied row st st'"
proof (cases "row_of centroids t fx")
  case (Inl e)
  with row_of_Inl [OF Inl] assms show ?thesis by simp
next
  case (Inr row)
  from row_of_Inr [OF Inr] obtain st1 where
    "process_file centroids t fx st = Inr st1" "tallied row st st1" by blast
  with assms Inr show ?thesis by simp
qed

text \<open>
  C2.  For every non-empty dict of distances, \<open>min(d, key=d.get)\<close> returns a key whose
  distance is minimal, and among the keys of minimal distance the first in the order of
  the dict.  For every test vector and every metric, the prediction that
  \<open>run_evaluation\<close> records is therefore the class whose centroid is nearest, the first
  such class in the order pizza_slice, whole_pizza, pizza_box when several are nearest.
  Given the distances A: 5, B: 2, C: 8 the prediction is B.
\<close>

theorem argmin_decision_rule:
  "(d \<noteq> [] \<longrightarrow> (\<exists>pre k v post. d = pre @ (k, v) # post \<and> dict_min_key d = Inr k
         \<and> (\<forall>x \<in> set pre. v < snd x) \<and> (\<forall>x \<in> set post. v \<le> snd x)))
   \<and> (process_file centroids t fx st = Inr st' \<longrightarrow>
         (\<exists>row dv. results st' = results st @ [row]
            \<and> (\<forall>m k. dist_to centroids m (snd fx) k = Inr (dv m k))
            \<and> (\<forall>m. \<exists>pre post. CLASSES = pre @ pred_of row m # post
                   \<and> (\<forall>k \<in> set pre. dv m (pred_of row m) < dv m k)
                   \<and> (\<forall>k \<in> set post. dv m (pred_of row m) \<le> dv m k))))
   \<and> dict_min_key [(''A'', 5), (''B'', 2), (''C'', 8)] = Inr ''B''"
proof (intro conjI impI)
  assume "d \<noteq> []"
  then show "\<exists>pre k v post. d = pre @ (k, v) # post \<and> dict_min_key d = Inr k
         \<and> (\<forall>x \<in> set pre. v < snd x) \<and> (\<forall>x \<in> set post. v \<le> snd x)"
    by (rule dict_min_key_first_minimum)
next
  assume run: "process_file centroids t fx st = Inr st'"
  from process_file_Inr [OF run] obtain row where
    row: "row_of centroids t fx = Inr row" "tallied row st st'" by blast
  from row_of_Inr [OF row(1)] obtain dv where
    dv: "\<forall>m k. dist_to centroids m (snd fx) k = Inr (dv m k)"
        "\<forall>m. dict_min_key (map (\<lambda>k. (k, dv m k)) CLASSES) = Inr (pred_of row m)"
    by blast
  have "\<forall>m. \<exists>pre post. CLASSES = pre @ pred_of row m # post
                   \<and> (\<forall>k \<in> set pre. dv m (pred_of row m) < dv m k)
                   \<and> (\<forall>k \<in> set post. dv m (pred_of row m) \<le> dv m k)"
    using dv(2) classes_first_minimum by blast
  moreover have "results st' = results st @ [row]"
    using row(2) by (simp add: tallied_def)
  ultimately show "\<exists>row dv. results st' = results st @ [row]
            \<and> (\<forall>m k. dist_to centroids m (snd fx) k = Inr (dv m k))
            \<and> (\<forall>m. \<exists>pre post. CLASSES = pre @ pred_of row m # post
                   \<and> (\<forall>k \<in> set pre. dv m (pred_of row m) < dv m k)
                   \<and> (\<forall>k \<in> set post. dv m (pred_of row m) \<le> dv m k))"
    using dv(1) by blast
next
  show "dict_min_key [(''A'', 5), (''B'', 2), (''C'', 8)] = Inr ''B''"
    by (simp add: dict_min_key_def)
qed

lemma tie_dists:
  "dist_to tie_centroids m (U8 [1, 0]) k =
     Inr (case k of pizza_slice \<Rightarrow> (case m of Euclidean \<Rightarrow> sqrt 2 | Manhattan \<Rightarrow> 2 | Cosine \<Rightarrow> 1)
          | whole_pizza \<Rightarrow> 0 | pizza_box \<Rightarrow> 0)"
  by (cases m; cases k)
     (simp_all add: dist_to_def tie_centroids_def distance_def d_euclidean_def d_manhattan_def
        d_cosine_def np_sub_def broadcast_def np_dot_def np_sum_def np_square_def np_abs_def
        np_linalg_norm_def np_divide_def)

lemma tie_goes_to_first:
  assumes "CLASSES = pre @ p # post" and "\<forall>k \<in> set pre. dv p < dv k"
    and "\<forall>k \<in> set post. dv p \<le> dv k"
    and "dv whole_pizza = (0 :: real)" and "dv pizza_box = 0" and "0 < dv pizza_slice"
  shows "p = whole_pizza"
proof -
  from assms(1) consider "pre = [] \<and> p = pizza_slice \<and> post = [whole_pizza, pizza_box]"
    | "pre = [pizza_slice] \<and> p = whole_pizza \<and> post = [pizza_box]"
    | "pre = [pizza_slice, whole_pizza] \<and> p = pizza_box \<and> post = []"
    by (auto simp: CLASSES_def Cons_eq_append_conv)
  then show ?thesis
  proof cases
    case 1
    with assms(3,4,6) show ?thesis by auto
  next
    case 2
    then show ?thesis by simp
  next
    case 3
    with assms(2,4,5) show ?thesis by auto
  qed
qed

theorem argmin_decision_rule_witness:
  "[(''A'', 5 :: real), (''B'', 2), (''C'', 8)] \<noteq> []
   \<and> dict_min_key [(''A'', 5), (''B'', 2), (''C'', 8)] = Inr ''B''
   \<and> (\<exists>st' row. process_file tie_centroids whole_pizza (''t.npy'', U8 [1, 0]) init_state = Inr st'
         \<and> results st' = [row] \<and> pred_of row Euclidean = whole_pizza
         \<and> pred_of row Manhattan = whole_pizza \<and> pred_of row Cosine = whole_pizza)"
proof -
  have "compute_dists tie_centroids (snd (''t.npy'', U8 [1, 0])) CLASSES (\<lambda>m. []) \<noteq> Inl e" for e
    by (rule compute_dists_total
          [where dv = "\<lambda>m k. case k of
             pizza_slice \<Rightarrow> (case m of Euclidean \<Rightarrow> sqrt 2 | Manhattan \<Rightarrow> 2 | Cosine \<Rightarrow> 1)
           | whole_pizza \<Rightarrow> 0 | pizza_box \<Rightarrow> 0"])
       (simp add: tie_dists)
  then obtain dists where
    "compute_dists tie_centroids (snd (''t.npy'', U8 [1, 0])) CLASSES (\<lambda>m. []) = Inr dists"
    by (cases "compute_dists tie_centroids (snd (''t.npy'', U8 [1, 0])) CLASSES (\<lambda>m. [])") auto
  from sample_ok [OF this, of whole_pizza] obtain st' where
    run: "process_file tie_centroids whole_pizza (''t.npy'', U8 [1, 0]) init_state = Inr st'"
    by blast
  note inst = argmin_decision_rule [of "[(''A'', 5), (''B'', 2), (''C'', 8)]" tie_centroids
      whole_pizza "(''t.npy'', U8 [1, 0])" init_state st']
  from inst [THEN conjunct2, THEN conjunct1, rule_format, OF run] obtain row dv where
    row: "results st' = results init_state @ [row]"
    and dv: "\<forall>m k. dist_to tie_centroids m (snd (''t.npy'', U8 [1, 0])) k = Inr (dv m k)"
    and first: "\<forall>m. \<exists>pre post. CLASSES = pre @ pred_of row m # post
                   \<and> (\<forall>k \<in> set pre. dv m (pred_of row m) < dv m k)
                   \<and> (\<forall>k \<in> set post. dv m (pred_of row m) \<le> dv m k)"
    by blast
  have eq: "dv m k = (case k of
             pizza_slice \<Rightarrow> (case m of Euclidean \<Rightarrow> sqrt 2 | Manhattan \<Rightarrow> 2 | Cosine \<Rightarrow> 1)
           | whole_pizza \<Rightarrow> 0 | pizza_box \<Rightarrow> 0)" for m k
    using dv [rule_format, of m k] by (simp add: tie_dists)
  have v1: "dv m whole_pizza = 0" for m by (simp add: eq)
  have v2: "dv m pizza_box = 0" for m by (simp add: eq)
  have v3: "0 < dv m pizza_slice" for m by (cases m) (simp_all add: eq)
  have pred: "pred_of row m = whole_pizza" for m
  proof -
    from first obtain pre post where
      "CLASSES = pre @ pred_of row m # post"
      "\<forall>k \<in> set pre. dv m (pred_of row m) < dv m k"
      "\<forall>k \<in> set post. dv m (pred_of row m) \<le> dv m k"
      by blast
    then show ?thesis using v1 [of m] v2 [of m] v3 [of m] by (rule tie_goes_to_first)
  qed
  have r: "results st' = [row]" using row by (simp add: init_state_def)
  have ne: "[(''A'', 5 :: real), (''B'', 2), (''C'', 8)] \<noteq> []" by simp
  show ?thesis
    using ne inst [THEN conjunct2, THEN conjunct2] run r pred [of Euclidean] pred [of Manhattan]
      pred [of Cosine]
    by (intro conjI exI [of _ st'] exI [of _ row]) assumption+
qed

section \<open>Claims about the counters of the evaluation\<close>

lemma collect_rows_class:
  assumes "collect (map (row_of centroids t) files) = Inr rows"
  shows "length rows = length files \<and> (\<forall>r \<in> set rows. True_Class r = t)"
proof -
  from collect_Inr [OF assms] have eq: "map (row_of centroids t) files = map Inr rows" .
  then have len: "length rows = length files"
    by (metis length_map)
  have "True_Class r = t" if "r \<in> set rows" for r
  proof -
    from that have "Inr r \<in> set (map (row_of centroids t) files)"
      by (simp add: eq)
    then obtain fx where "row_of centroids t fx = Inr r" by auto
    from row_of_Inr [OF this] show ?thesis by simp
  qed
  with len show ?thesis by simp
qed

lemma all_rows_labels:
  "collect (all_rows centroids test_dir cs) = Inr rows \<Longrightarrow>
     length (filter (\<lambda>r. True_Class r = t) rows)
       = (\<Sum>c\<leftarrow>cs. if c = t then length (class_samples test_dir c) else 0)
     \<and> length rows = (\<Sum>c\<leftarrow>cs. length (class_samples test_dir c))"
proof (induction cs arbitrary: rows)
  case Nil
  then show ?case by (simp add: all_rows_def)
next
  case (Cons c cs)
  have unfold: "all_rows centroids test_dir (c # cs)
      = map (row_of centroids c) (class_samples test_dir c) @ all_rows centroids test_dir cs"
    by (simp add: all_rows_def)
  from Cons.prems obtain r1 r2 where
    r1: "collect (map (row_of centroids c) (class_samples test_dir c)) = Inr r1"
    and r2: "collect (all_rows centroids test_dir cs) = Inr r2"
    and rows: "rows = r1 @ r2"
    by (auto simp: unfold collect_append split: sum.splits)
  from collect_rows_class [OF r1] have
    l1: "length r1 = length (class_samples test_dir c)" and c1: "\<forall>r \<in> set r1. True_Class r = c"
    by simp_all
  have f1: "length (filter (\<lambda>r. True_Class r = t) r1)
              = (if c = t then length (class_samples test_dir c) else 0)"
  proof (cases "c = t")
    case True
    then have "filter (\<lambda>r. True_Class r = t) r1 = r1" using c1 by (simp add: filter_id_conv)
    with True l1 show ?thesis by simp
  next
    case False
    then have "filter (\<lambda>r. True_Class r = t) r1 = []" using c1 by (simp add: filter_empty_conv)
    with False show ?thesis by simp
  qed
  from Cons.IH [OF r2] f1 l1 rows show ?case by simp
qed

lemma confusion_row_sum:
  "(\<Sum>q\<leftarrow>CLASSES. length (filter (\<lambda>r. True_Class r = t \<and> pred_of r m = q) rows))
     = length (filter (\<lambda>r. True_Class r = t) rows)"
proof (induction rows)
  case Nil
  show ?case by (simp add: CLASSES_def)
next
  case (Cons a rows)
  then show ?case by (cases "pred_of a m") (auto simp: CLASSES_def)
qed

lemma class_count:
  "(\<Sum>c\<leftarrow>CLASSES. if c = t then length (class_samples test_dir c) else 0)
     = length (class_samples test_dir t)"
  by (cases t) (simp_all add: CLASSES_def)

lemma eval_classes_Inr:
  assumes "eval_classes centroids test_dir cs st = Inr st'"
  shows "\<exists>rows. collect (all_rows centroids test_dir cs) = Inr rows \<and> tallies rows st st'"
proof (cases "collect (all_rows centroids test_dir cs)")
  case (Inl e)
  with eval_classes_collect [of centroids test_dir cs st] assms show ?thesis by simp
next
  case (Inr rows)
  with eval_classes_collect [of centroids test_dir cs st] assms show ?thesis by auto
qed

lemma eval_classes_Inl:
  assumes "eval_classes centroids test_dir cs st = Inl e"
  shows "collect (all_rows centroids test_dir cs) = Inl e"
proof (cases "collect (all_rows centroids test_dir cs)")
  case (Inl e')
  with eval_classes_collect [of centroids test_dir cs st] assms show ?thesis by simp
next
  case (Inr rows)
  with eval_classes_collect [of centroids test_dir cs st] assms show ?thesis by auto
qed

lemma final_counts:
  assumes run: "eval_classes centroids test_dir CLASSES init_state = Inr st"
  shows "(\<Sum>q\<leftarrow>CLASSES. confusion_matrices st m t q) = length (class_samples test_dir t)"
    and "total_images st = (\<Sum>t'\<leftarrow>CLASSES. length (class_samples test_dir t'))"
    and "correct_counts st m = length (filter (\<lambda>r. pred_of r m = True_Class r) (results st))"
    and "confusion_matrices st m t q
           = length (filter (\<lambda>r. True_Class r = t \<and> pred_of r m = q) (results st))"
    and "total_images st = length (results st)"
proof -
  from eval_classes_Inr [OF run] obtain rows where
    rows: "collect (all_rows centroids test_dir CLASSES) = Inr rows"
    and tal: "tallies rows init_state st"
    by blast
  have res: "results st = rows" and tot: "total_images st = length rows"
    and cc: "\<And>m. correct_counts st m = length (filter (\<lambda>r. pred_of r m = True_Class r) rows)"
    and cm: "\<And>m t q. confusion_matrices st m t q
                = length (filter (\<lambda>r. True_Class r = t \<and> pred_of r m = q) rows)"
    using tal by (simp_all add: tallies_def init_state_def)
  note lab = all_rows_labels [OF rows]
  show "(\<Sum>q\<leftarrow>CLASSES. confusion_matrices st m t q) = length (class_samples test_dir t)"
    using lab [of t] by (simp only: cm confusion_row_sum class_count)
  show "total_images st = (\<Sum>t'\<leftarrow>CLASSES. length (class_samples test_dir t'))"
    using lab [of t] by (simp only: tot)
  show "correct_counts st m = length (filter (\<lambda>r. pred_of r m = True_Class r) (results st))"
    by (simp only: cc res)
  show "confusion_matrices st m t q
           = length (filter (\<lambda>r. True_Class r = t \<and> pred_of r m = q) (results st))"
    by (simp only: cm res)
  show "total_images st = length (results st)"
    by (simp only: tot res)
qed

lemma broadcast_error: "broadcast f v1 v2 = Inl e \<Longrightarrow> e = ValueError"
  by (auto simp: broadcast_def split: if_splits list.splits)

lemma np_sub_error: "np_sub v1 v2 = Inl e \<Longrightarrow> e = ValueError"
  by (cases v1; cases v2) (auto simp: np_sub_def split: sum.splits dest: broadcast_error)

lemma np_dot_error: "np_dot v1 v2 = Inl e \<Longrightarrow> e = ValueError"
  by (cases v1; cases v2) (auto simp: np_dot_def split: if_splits)

lemma distance_error: "distance m v1 v2 = Inl e \<Longrightarrow> e = ValueError"
  by (cases m)
     (auto simp: distance_def d_euclidean_def d_manhattan_def d_cosine_def np_divide_def Let_def
           split: sum.splits if_splits dest: np_sub_error np_dot_error)

lemma load_centroids_step:
  "load_centroids centroid_dir cs acc = Inr centroids \<Longrightarrow>
     (\<forall>k. centroids k = (if k \<in> set cs then centroid_dir k else acc k))
     \<and> (\<forall>k \<in> set cs. centroid_dir k \<noteq> None)"
  by (induction cs arbitrary: acc) (auto split: option.splits)

lemma load_centroids_Inr:
  assumes "load_centroids centroid_dir CLASSES Map.empty = Inr centroids"
  shows "centroids = centroid_dir" and "\<forall>k. centroid_dir k \<noteq> None"
proof -
  have all: "k \<in> set CLASSES" for k by (cases k) (simp_all add: CLASSES_def)
  from load_centroids_step [OF assms] all show "centroids = centroid_dir"
    by (auto simp: fun_eq_iff)
  from load_centroids_step [OF assms] all show "\<forall>k. centroid_dir k \<noteq> None"
    by blast
qed

lemma load_centroids_total:
  assumes "\<forall>k. centroid_dir k \<noteq> None"
  shows "load_centroids centroid_dir cs acc \<noteq> Inl c"
proof (induction cs arbitrary: acc)
  case Nil
  show ?case by simp
next
  case (Cons k cs)
  from assms have "centroid_dir k \<noteq> None" by (rule spec)
  then obtain v where "centroid_dir k = Some v"
    by (cases "centroid_dir k") auto
  with Cons show ?case by simp
qed

lemma row_of_error:
  assumes "\<forall>k. centroids k \<noteq> None" and "row_of centroids t fx = Inl e"
  shows "e = ValueError"
proof -
  from row_of_Inl [OF assms(2)] obtain m k where "dist_to centroids m (snd fx) k = Inl e"
    by blast
  moreover from assms(1) have "centroids k \<noteq> None" by (rule spec)
  then obtain mu where "centroids k = Some mu"
    by (cases "centroids k") auto
  ultimately have "distance m (snd fx) mu = Inl e"
    by (simp add: dist_to_def)
  then show ?thesis by (rule distance_error)
qed

lemma all_rows_member:
  "r \<in> set (all_rows centroids test_dir cs) \<Longrightarrow>
     \<exists>t fx. t \<in> set cs \<and> fx \<in> set (class_samples test_dir t) \<and> r = row_of centroids t fx"
  by (auto simp: all_rows_def)

lemma accuracy_lines_ok:
  "total_images st \<noteq> 0 \<Longrightarrow>
     accuracy_lines st ms
       = Inr (map (\<lambda>m. (m, real (correct_counts st m) / real (total_images st) * 100,
                         correct_counts st m, total_images st)) ms)"
  by (induction ms) (simp_all add: py_truediv_def)

lemma run_evaluation_Inl:
  assumes "run_evaluation centroid_dir test_dir = Inl e"
  shows "e = ValueError \<or> e = IndexError"
proof (cases "load_centroids centroid_dir CLASSES Map.empty")
  case (Inl c)
  with assms show ?thesis by (simp add: run_evaluation_def)
next
  case (Inr centroids)
  note load = load_centroids_Inr [OF Inr]
  show ?thesis
  proof (cases "eval_classes centroids test_dir CLASSES init_state")
    case (Inl e')
    with assms Inr have e: "e' = e" by (simp add: run_evaluation_def)
    from eval_classes_Inl [OF Inl] have "Inl e' \<in> set (all_rows centroids test_dir CLASSES)"
      by (rule collect_Inl)
    from all_rows_member [OF this] obtain t fx where "row_of centroids t fx = Inl e'"
      by auto
    from row_of_error [OF _ this] load e show ?thesis by simp
  next
    case st: (Inr st)
    show ?thesis
    proof (cases "results st")
      case Nil
      with assms Inr st show ?thesis by (simp add: run_evaluation_def)
    next
      case (Cons row0 rest)
      have "total_images st \<noteq> 0"
        using final_counts(5) [OF st] Cons by simp
      from accuracy_lines_ok [OF this, of METRICS] assms Inr st Cons show ?thesis
        by (simp add: run_evaluation_def)
    qed
  qed
qed

lemma run_evaluation_Completed:
  assumes "run_evaluation centroid_dir test_dir = Inr (Completed rep)"
  shows "\<exists>st. eval_classes centroid_dir test_dir CLASSES init_state = Inr st
           \<and> (\<forall>k. centroid_dir k \<noteq> None) \<and> results st \<noteq> []
           \<and> detailed_predictions rep = results st
           \<and> confusion_files rep = map (\<lambda>m. (m, confusion_table st m)) METRICS
           \<and> accuracy_summary rep
                = map (\<lambda>m. (m, real (correct_counts st m) / real (total_images st) * 100,
                             correct_counts st m, total_images st)) METRICS"
proof (cases "load_centroids centroid_dir CLASSES Map.empty")
  case (Inl c)
  with assms show ?thesis by (simp add: run_evaluation_def)
next
  case (Inr centroids)
  note load = load_centroids_Inr [OF Inr]
  show ?thesis
  proof (cases "eval_classes centroids test_dir CLASSES init_state")
    case (Inl e')
    with assms Inr show ?thesis by (simp add: run_evaluation_def)
  next
    case st: (Inr st)
    show ?thesis
    proof (cases "results st")
      case Nil
      with assms Inr st show ?thesis by (simp add: run_evaluation_def)
    next
      case (Cons row0 rest)
      have "total_images st \<noteq> 0"
        using final_counts(5) [OF st] Cons by simp
      from accuracy_lines_ok [OF this, of METRICS] assms Inr st Cons
      have "rep = \<lparr>detailed_predictions = results st,
                  confusion_files = map (\<lambda>m. (m, confusion_table st m)) METRICS,
                  accuracy_summary = map (\<lambda>m. (m, real (correct_counts st m) / real (total_images st) * 100,
                             correct_counts st m, total_images st)) METRICS\<rparr>"
        by (simp add: run_evaluation_def)
      with st load Cons show ?thesis by (intro exI [of _ st]) simp
    qed
  qed
qed

lemma run_evaluation_run:
  assumes "\<forall>k. centroid_dir k \<noteq> None"
    and "eval_classes centroid_dir test_dir CLASSES init_state = Inr st"
    and "results st \<noteq> []"
  shows "\<exists>rep. run_evaluation centroid_dir test_dir = Inr (Completed rep)"
proof -
  obtain centroids where l: "load_centroids centroid_dir CLASSES Map.empty = Inr centroids"
    using load_centroids_total [OF assms(1), of CLASSES Map.empty]
    by (cases "load_centroids centroid_dir CLASSES Map.empty") auto
  from load_centroids_Inr(1) [OF l] have c: "centroids = centroid_dir" .
  obtain row0 rest where r: "results st = row0 # rest"
    using assms(3) by (cases "results st") auto
  have "total_images st \<noteq> 0"
    using final_counts(5) [OF assms(2)] r by simp
  from accuracy_lines_ok [OF this, of METRICS] l c assms(2) r show ?thesis
    by (simp add: run_evaluation_def)
qed

lemma row_of_total:
  assumes "\<forall>m k. dist_to centroids m (snd fx) k = Inr (dv m k)"
  shows "\<exists>row. row_of centroids t fx = Inr row"
proof -
  have "compute_dists centroids (snd fx) CLASSES (\<lambda>m. []) \<noteq> Inl e" for e
    using assms by (rule compute_dists_total)
  then obtain dists where "compute_dists centroids (snd fx) CLASSES (\<lambda>m. []) = Inr dists"
    by (cases "compute_dists centroids (snd fx) CLASSES (\<lambda>m. [])") auto
  from sample_ok [OF this, of t] show ?thesis by blast
qed

lemma eval_classes_total:
  assumes "\<And>t fx. fx \<in> set (class_samples test_dir t) \<Longrightarrow> \<exists>row. row_of centroids t fx = Inr row"
  shows "\<exists>st'. eval_classes centroids test_dir cs st = Inr st'"
proof (cases "eval_classes centroids test_dir cs st")
  case (Inl e)
  from eval_classes_Inl [OF Inl] have "Inl e \<in> set (all_rows centroids test_dir cs)"
    by (rule collect_Inl)
  from all_rows_member [OF this] obtain t fx where
    "fx \<in> set (class_samples test_dir t)" "row_of centroids t fx = Inl e"
    by auto
  with assms [of fx t] show ?thesis by auto
next
  case (Inr st')
  then show ?thesis by blast
qed

lemma one_sample_dir_samples:
  "class_samples one_sample_dir t = (if t = whole_pizza then [(''t.npy'', U8 [1, 0])] else [])"
  by (simp add: class_samples_def one_sample_dir_def endswith_def)

lemma tie_row_total: "\<exists>row. row_of tie_centroids t (''t.npy'', U8 [1, 0]) = Inr row"
  by (rule row_of_total
        [where dv = "\<lambda>m k. case k of
             pizza_slice \<Rightarrow> (case m of Euclidean \<Rightarrow> sqrt 2 | Manhattan \<Rightarrow> 2 | Cosine \<Rightarrow> 1)
           | whole_pizza \<Rightarrow> 0 | pizza_box \<Rightarrow> 0"])
     (simp add: tie_dists)

lemma confusion_table_sums:
  "map sum_list (confusion_table st m)
     = map (\<lambda>t. \<Sum>q\<leftarrow>CLASSES. confusion_matrices st m t q) CLASSES"
  by (simp add: confusion_table_def)

text \<open>
  C6.  Every cell of every confusion matrix and every correct count starts at zero.  Each
  test sample adds, for each metric, one to the cell (true class, predicted class) and
  to no other, and one to the correct count exactly when the predicted class is the
  true class.  After the loop, for every metric, the row of a true class sums to the
  number of test samples of that class, all cells sum to \<open>total_images\<close>, which is the
  number of test samples, and the correct count is the number of rows whose prediction
  is the true class; the same row sums are in the confusion files that are written.
\<close>

theorem confusion_matrix_counts:
  "confusion_matrices init_state m t q = 0 \<and> correct_counts init_state m = 0
   \<and> total_images init_state = 0
   \<and> (process_file centroids t fx st = Inr st' \<longrightarrow> (\<exists>row. tallied row st st' \<and> True_Class row = t))
   \<and> (eval_classes centroids test_dir CLASSES init_state = Inr final \<longrightarrow>
         (\<Sum>q\<leftarrow>CLASSES. confusion_matrices final m t q) = length (class_samples test_dir t)
         \<and> (\<Sum>t'\<leftarrow>CLASSES. \<Sum>q\<leftarrow>CLASSES. confusion_matrices final m t' q) = total_images final
         \<and> total_images final = (\<Sum>t'\<leftarrow>CLASSES. length (class_samples test_dir t'))
         \<and> correct_counts final m
              = length (filter (\<lambda>r. pred_of r m = True_Class r) (results final)))
   \<and> (run_evaluation centroid_dir test_dir = Inr (Completed rep) \<longrightarrow>
         map (\<lambda>mt. map sum_list (snd mt)) (confusion_files rep)
           = map (\<lambda>m. map (\<lambda>t. length (class_samples test_dir t)) CLASSES) METRICS)"
proof (intro conjI impI)
  show "confusion_matrices init_state m t q = 0" "correct_counts init_state m = 0"
    "total_images init_state = 0"
    by (simp_all add: init_state_def)
next
  assume "process_file centroids t fx st = Inr st'"
  from process_file_Inr [OF this] obtain row where
    row: "row_of centroids t fx = Inr row" "tallied row st st'" by blast
  from row_of_Inr [OF row(1)] row(2) show "\<exists>row. tallied row st st' \<and> True_Class row = t"
    by blast
next
  assume run: "eval_classes centroids test_dir CLASSES init_state = Inr final"
  show rs: "(\<Sum>q\<leftarrow>CLASSES. confusion_matrices final m t q) = length (class_samples test_dir t)"
    by (rule final_counts(1) [OF run])
  show tot: "total_images final = (\<Sum>t'\<leftarrow>CLASSES. length (class_samples test_dir t'))"
    by (rule final_counts(2) [OF run])
  have "(\<Sum>t'\<leftarrow>CLASSES. \<Sum>q\<leftarrow>CLASSES. confusion_matrices final m t' q)
          = (\<Sum>t'\<leftarrow>CLASSES. length (class_samples test_dir t'))"
    by (simp only: final_counts(1) [OF run])
  then show "(\<Sum>t'\<leftarrow>CLASSES. \<Sum>q\<leftarrow>CLASSES. confusion_matrices final m t' q) = total_images final"
    by (simp only: tot)
  show "correct_counts final m = length (filter (\<lambda>r. pred_of r m = True_Class r) (results final))"
    by (rule final_counts(3) [OF run])
next
  assume "run_evaluation centroid_dir test_dir = Inr (Completed rep)"
  from run_evaluation_Completed [OF this] obtain st where
    run: "eval_classes centroid_dir test_dir CLASSES init_state = Inr st"
    and cf: "confusion_files rep = map (\<lambda>m. (m, confusion_table st m)) METRICS"
    by blast
  have "map (\<lambda>mt. map sum_list (snd mt)) (confusion_files rep)
          = map (\<lambda>m. map sum_list (confusion_table st m)) METRICS"
    by (simp add: cf comp_def)
  also have "\<dots> = map (\<lambda>m. map (\<lambda>t. length (class_samples test_dir t)) CLASSES) METRICS"
    by (simp only: confusion_table_sums final_counts(1) [OF run])
  finally show "map (\<lambda>mt. map sum_list (snd mt)) (confusion_files rep)
           = map (\<lambda>m. map (\<lambda>t. length (class_samples test_dir t)) CLASSES) METRICS" .
qed

text \<open>
  C4.  With every centroid present and no test sample (empty test folders, or none),
  \<open>run_evaluation\<close> ends in the IndexError that \<open>results[0]\<close> raises, which nothing
  catches or reports.  The division of the accuracy is never reached with a zero total:
  no run ends in ZeroDivisionError.
\<close>

theorem empty_test_set_index_error:
  "run_evaluation tie_centroids (\<lambda>t. Some []) = Inl IndexError
   \<and> run_evaluation tie_centroids Map.empty = Inl IndexError
   \<and> run_evaluation centroid_dir test_dir \<noteq> Inl ZeroDivisionError"
proof (intro conjI)
  show "run_evaluation tie_centroids (\<lambda>t. Some []) = Inl IndexError"
    by (simp add: run_evaluation_def CLASSES_def tie_centroids_def init_state_def)
  show "run_evaluation tie_centroids Map.empty = Inl IndexError"
    by (simp add: run_evaluation_def CLASSES_def tie_centroids_def init_state_def)
  show "run_evaluation centroid_dir test_dir \<noteq> Inl ZeroDivisionError"
    using run_evaluation_Inl [of centroid_dir test_dir ZeroDivisionError] by auto
qed

theorem confusion_matrix_counts_witness:
  "\<exists>st' final rep.
     process_file tie_centroids whole_pizza (''t.npy'', U8 [1, 0]) init_state = Inr st'
     \<and> (\<exists>row. tallied row init_state st' \<and> True_Class row = whole_pizza)
     \<and> eval_classes tie_centroids one_sample_dir CLASSES init_state = Inr final
     \<and> (\<Sum>q\<leftarrow>CLASSES. confusion_matrices final Euclidean whole_pizza q) = 1
     \<and> total_images final = 1
     \<and> run_evaluation tie_centroids one_sample_dir = Inr (Completed rep)
     \<and> map (\<lambda>mt. map sum_list (snd mt)) (confusion_files rep) = [[0, 1, 0], [0, 1, 0], [0, 1, 0]]"
proof -
  from tie_row_total [of whole_pizza] obtain row0 where
    "row_of tie_centroids whole_pizza (''t.npy'', U8 [1, 0]) = Inr row0" ..
  from row_of_Inr [OF this] obtain st' where
    p: "process_file tie_centroids whole_pizza (''t.npy'', U8 [1, 0]) init_state = Inr st'"
    by blast
  have "\<exists>final. eval_classes tie_centroids one_sample_dir CLASSES init_state = Inr final"
    by (rule eval_classes_total) (auto simp: one_sample_dir_samples tie_row_total split: if_splits)
  then obtain final where
    e: "eval_classes tie_centroids one_sample_dir CLASSES init_state = Inr final" ..
  have tot: "total_images final = 1"
    using final_counts(2) [OF e] by (simp add: one_sample_dir_samples CLASSES_def)
  then have "results final \<noteq> []"
    using final_counts(5) [OF e] by auto
  from run_evaluation_run [OF _ e this] obtain rep where
    r: "run_evaluation tie_centroids one_sample_dir = Inr (Completed rep)"
    by (auto simp: tie_centroids_def)
  note inst = confusion_matrix_counts [where m = Euclidean and t = whole_pizza
      and centroids = tie_centroids and fx = "(''t.npy'', U8 [1, 0])" and st = init_state
      and st' = st' and test_dir = one_sample_dir and final = final
      and centroid_dir = tie_centroids and rep = rep]
  note c4 = inst [THEN conjunct2, THEN conjunct2, THEN conjunct2, THEN conjunct1, rule_format, OF p]
  note c5 = inst [THEN conjunct2, THEN conjunct2, THEN conjunct2, THEN conjunct2, THEN conjunct1,
      rule_format, OF e]
  note c6 = inst [THEN conjunct2, THEN conjunct2, THEN conjunct2, THEN conjunct2, THEN conjunct2,
      rule_format, OF r]
  have rowsum: "(\<Sum>q\<leftarrow>CLASSES. confusion_matrices final Euclidean whole_pizza q) = 1"
    using c5 [THEN conjunct1] by (simp add: one_sample_dir_samples)
  have tabs: "map (\<lambda>mt. map sum_list (snd mt)) (confusion_files rep)
                = [[0, 1, 0], [0, 1, 0], [0, 1, 0]]"
    using c6 by (simp add: one_sample_dir_samples CLASSES_def METRICS_def)
  show ?thesis
    using p c4 e rowsum tot r tabs
    by (intro exI [of _ st'] exI [of _ final] exI [of _ rep] conjI) assumption+
qed

section \<open>Claims about the processing order\<close>

lemma run_evaluation_rows:
  "run_evaluation centroid_dir test_dir =
     (case load_centroids centroid_dir CLASSES Map.empty of
        Inl c \<Rightarrow> Inr (Missing_Centroid c)
      | Inr centroids \<Rightarrow>
          (case collect (all_rows centroids test_dir CLASSES) of
             Inl e \<Rightarrow> Inl e
           | Inr rows \<Rightarrow> if rows = [] then Inl IndexError else Inr (Completed (report_of rows))))"
proof (cases "load_centroids centroid_dir CLASSES Map.empty")
  case (Inl c)
  then show ?thesis by (simp add: run_evaluation_def)
next
  case l: (Inr centroids)
  show ?thesis
  proof (cases "collect (all_rows centroids test_dir CLASSES)")
    case (Inl e)
    with eval_classes_collect [of centroids test_dir CLASSES init_state]
    have "eval_classes centroids test_dir CLASSES init_state = Inl e" by simp
    with l Inl show ?thesis by (simp add: run_evaluation_def)
  next
    case (Inr rows)
    with eval_classes_collect [of centroids test_dir CLASSES init_state] obtain st where
      st: "eval_classes centroids test_dir CLASSES init_state = Inr st"
      and tal: "tallies rows init_state st"
      by auto
    have res: "results st = rows" and tot: "total_images st = length rows"
      and cc: "\<And>m. correct_counts st m = length (filter (\<lambda>r. pred_of r m = True_Class r) rows)"
      and cm: "\<And>m t q. confusion_matrices st m t q
                = length (filter (\<lambda>r. True_Class r = t \<and> pred_of r m = q) rows)"
      using tal by (simp_all add: tallies_def init_state_def)
    show ?thesis
    proof (cases rows)
      case Nil
      with l Inr st res show ?thesis by (simp add: run_evaluation_def)
    next
      case (Cons row0 rest)
      then have nz: "total_images st \<noteq> 0" using tot by simp
      have "run_evaluation centroid_dir test_dir
              = Inr (Completed \<lparr>detailed_predictions = results st,
                      confusion_files = map (\<lambda>m. (m, confusion_table st m)) METRICS,
                      accuracy_summary = map (\<lambda>m. (m, real (correct_counts st m) / real (total_images st) * 100,
                             correct_counts st m, total_images st)) METRICS\<rparr>)"
        using l st res Cons accuracy_lines_ok [OF nz, of METRICS]
        by (simp add: run_evaluation_def)
      also have "\<dots> = Inr (Completed (report_of rows))"
        by (simp add: report_of_def res tot cc cm confusion_table_def)
      finally show ?thesis using l Inr Cons by simp
    qed
  qed
qed

lemma class_samples_perm:
  assumes "rel_option (\<lambda>l' l. mset l' = mset l) (test_dir' t) (test_dir t)"
  shows "mset (class_samples test_dir' t) = mset (class_samples test_dir t)"
proof (cases "test_dir t")
  case None
  with assms show ?thesis by (cases "test_dir' t") (simp_all add: class_samples_def)
next
  case (Some l)
  with assms obtain l' where "test_dir' t = Some l'" "mset l' = mset l"
    by (cases "test_dir' t") simp_all
  with Some show ?thesis by (simp add: class_samples_def)
qed

lemma all_rows_perm:
  assumes "\<forall>t. mset (class_samples test_dir' t) = mset (class_samples test_dir t)"
  shows "mset (all_rows centroids test_dir' cs) = mset (all_rows centroids test_dir cs)"
proof (induction cs)
  case Nil
  show ?case by (simp add: all_rows_def)
next
  case (Cons t cs)
  have "mset (map (row_of centroids t) (class_samples test_dir' t))
          = mset (map (row_of centroids t) (class_samples test_dir t))"
    using assms by simp
  with Cons show ?case by (simp add: all_rows_def)
qed

lemma collect_perm:
  assumes perm: "mset R' = mset R" and err: "\<forall>e. Inl e \<in> set R \<longrightarrow> e = ValueError"
  shows "(case collect R of
            Inl e \<Rightarrow> collect R' = Inl e
          | Inr rows \<Rightarrow> (\<exists>rows'. collect R' = Inr rows' \<and> mset rows' = mset rows))"
proof -
  have sets: "set R' = set R" using perm by (rule mset_eq_setD)
  show ?thesis
  proof (cases "collect R")
    case (Inl e)
    from collect_Inl [OF Inl] have in_R: "Inl e \<in> set R" .
    with err have e: "e = ValueError" by simp
    have "collect R' = Inl ValueError"
    proof (cases "collect R'")
      case (Inl e')
      from collect_Inl [OF Inl] sets err have "e' = ValueError" by simp
      with Inl show ?thesis by simp
    next
      case (Inr rows')
      from collect_Inr [OF Inr] in_R sets show ?thesis by auto
    qed
    with Inl e show ?thesis by simp
  next
    case (Inr rows)
    from collect_Inr [OF Inr] have R: "R = map Inr rows" .
    have "\<exists>rows'. collect R' = Inr rows'"
    proof (cases "collect R'")
      case (Inl e')
      from collect_Inl [OF Inl] sets R show ?thesis by auto
    next
      case (Inr rows')
      then show ?thesis by blast
    qed
    then obtain rows' where r': "collect R' = Inr rows'" ..
    from collect_Inr [OF r'] have R': "R' = map Inr rows'" .
    have "mset (map projr R') = mset (map projr R)"
      using perm by simp
    then have "mset rows' = mset rows"
      by (simp add: R R' comp_def)
    with Inr r' show ?thesis by simp
  qed
qed

lemma length_filter_perm:
  "mset rows' = mset rows \<Longrightarrow> length (filter P rows') = length (filter P rows)"
  by (metis mset_filter size_mset)

lemma report_of_perm:
  assumes "mset rows' = mset rows"
  shows "confusion_files (report_of rows') = confusion_files (report_of rows)"
    and "accuracy_summary (report_of rows') = accuracy_summary (report_of rows)"
    and "mset (detailed_predictions (report_of rows')) = mset (detailed_predictions (report_of rows))"
    and "rows' = [] \<longleftrightarrow> rows = []"
proof -
  have len: "length rows' = length rows"
    using assms by (rule mset_eq_length)
  show "confusion_files (report_of rows') = confusion_files (report_of rows)"
    by (simp add: report_of_def length_filter_perm [OF assms])
  show "accuracy_summary (report_of rows') = accuracy_summary (report_of rows)"
    by (simp add: report_of_def length_filter_perm [OF assms] len)
  show "mset (detailed_predictions (report_of rows')) = mset (detailed_predictions (report_of rows))"
    by (simp add: report_of_def assms)
  show "rows' = [] \<longleftrightarrow> rows = []"
    using len by auto
qed

lemma run_evaluation_perm:
  assumes perm: "\<forall>t. rel_option (\<lambda>l' l. mset l' = mset l) (test_dir' t) (test_dir t)"
  shows "run_evaluation centroid_dir test_dir = Inl e \<Longrightarrow> run_evaluation centroid_dir test_dir' = Inl e"
    and "run_evaluation centroid_dir test_dir = Inr (Missing_Centroid c) \<Longrightarrow>
           run_evaluation centroid_dir test_dir' = Inr (Missing_Centroid c)"
    and "run_evaluation centroid_dir test_dir = Inr (Completed rep) \<Longrightarrow>
           \<exists>rep'. run_evaluation centroid_dir test_dir' = Inr (Completed rep')
              \<and> confusion_files rep' = confusion_files rep
              \<and> accuracy_summary rep' = accuracy_summary rep
              \<and> mset (detailed_predictions rep') = mset (detailed_predictions rep)"
proof -
  have samples: "\<forall>t. mset (class_samples test_dir' t) = mset (class_samples test_dir t)"
    using perm class_samples_perm by blast
  show "run_evaluation centroid_dir test_dir' = Inl e"
    if run: "run_evaluation centroid_dir test_dir = Inl e"
  proof (cases "load_centroids centroid_dir CLASSES Map.empty")
    case (Inl k)
    with run show ?thesis by (simp add: run_evaluation_rows)
  next
    case l: (Inr centroids)
    have total: "\<forall>k. centroids k \<noteq> None"
      using load_centroids_Inr [OF l] by simp
    have err: "\<forall>e. Inl e \<in> set (all_rows centroids test_dir CLASSES) \<longrightarrow> e = ValueError"
      using all_rows_member row_of_error [OF total] by metis
    note cp = collect_perm [OF all_rows_perm [OF samples, of centroids CLASSES] err]
    show ?thesis
    proof (cases "collect (all_rows centroids test_dir CLASSES)")
      case (Inl e')
      with cp run l show ?thesis by (simp add: run_evaluation_rows)
    next
      case (Inr rows)
      with cp obtain rows' where
        r': "collect (all_rows centroids test_dir' CLASSES) = Inr rows'" "mset rows' = mset rows"
        by auto
      from report_of_perm(4) [OF r'(2)] run l Inr r'(1) show ?thesis
        by (simp add: run_evaluation_rows split: if_splits)
    qed
  qed
  show "run_evaluation centroid_dir test_dir' = Inr (Missing_Centroid c)"
    if run: "run_evaluation centroid_dir test_dir = Inr (Missing_Centroid c)"
  proof (cases "load_centroids centroid_dir CLASSES Map.empty")
    case (Inl k)
    with run show ?thesis by (simp add: run_evaluation_rows)
  next
    case l: (Inr centroids)
    with run show ?thesis
      by (simp add: run_evaluation_rows split: sum.splits if_splits)
  qed
  show "\<exists>rep'. run_evaluation centroid_dir test_dir' = Inr (Completed rep')
              \<and> confusion_files rep' = confusion_files rep
              \<and> accuracy_summary rep' = accuracy_summary rep
              \<and> mset (detailed_predictions rep') = mset (detailed_predictions rep)"
    if run: "run_evaluation centroid_dir test_dir = Inr (Completed rep)"
  proof (cases "load_centroids centroid_dir CLASSES Map.empty")
    case (Inl k)
    with run show ?thesis by (simp add: run_evaluation_rows)
  next
    case l: (Inr centroids)
    have total: "\<forall>k. centroids k \<noteq> None"
      using load_centroids_Inr [OF l] by simp
    have err: "\<forall>e. Inl e \<in> set (all_rows centroids test_dir CLASSES) \<longrightarrow> e = ValueError"
      using all_rows_member row_of_error [OF total] by metis
    note cp = collect_perm [OF all_rows_perm [OF samples, of centroids CLASSES] err]
    show ?thesis
    proof (cases "collect (all_rows centroids test_dir CLASSES)")
      case (Inl e')
      with run l show ?thesis by (simp add: run_evaluation_rows)
    next
      case (Inr rows)
      with cp obtain rows' where
        r': "collect (all_rows centroids test_dir' CLASSES) = Inr rows'" "mset rows' = mset rows"
        by auto
      from run l Inr have rep: "rows \<noteq> []" "rep = report_of rows"
        by (simp_all add: run_evaluation_rows split: if_splits)
      from report_of_perm(4) [OF r'(2)] rep(1) have "rows' \<noteq> []" by simp
      with l r'(1) have "run_evaluation centroid_dir test_dir' = Inr (Completed (report_of rows'))"
        by (simp add: run_evaluation_rows)
      with report_of_perm(1-3) [OF r'(2)] rep(2) show ?thesis by simp
    qed
  qed
qed

text \<open>
  C8.  The centroid of a class matrix does not depend on the order of its rows.  When the
  files of every test folder are processed in another order, \<open>run_evaluation\<close> ends the
  same way: with the same exception, with the same missing centroid, or with the same
  confusion matrices, the same correct counts and accuracies, and the same rows of
  predictions, one for each sample (in the other order).
\<close>

theorem order_invariance:
  "(mset matrix_X' = mset matrix_X \<longrightarrow> (\<forall>r \<in> set matrix_X. length r = d) \<longrightarrow>
      np_mean_axis0 matrix_X' = np_mean_axis0 matrix_X)
   \<and> ((\<forall>t. rel_option (\<lambda>l' l. mset l' = mset l) (test_dir' t) (test_dir t)) \<longrightarrow>
        (run_evaluation centroid_dir test_dir = Inl e \<longrightarrow> run_evaluation centroid_dir test_dir' = Inl e)
      \<and> (run_evaluation centroid_dir test_dir = Inr (Missing_Centroid c) \<longrightarrow>
            run_evaluation centroid_dir test_dir' = Inr (Missing_Centroid c))
      \<and> (run_evaluation centroid_dir test_dir = Inr (Completed rep) \<longrightarrow>
            (\<exists>rep'. run_evaluation centroid_dir test_dir' = Inr (Completed rep')
               \<and> confusion_files rep' = confusion_files rep
               \<and> accuracy_summary rep' = accuracy_summary rep
               \<and> mset (detailed_predictions rep') = mset (detailed_predictions rep))))"
proof (intro conjI impI)
  assume "mset matrix_X' = mset matrix_X" "\<forall>r \<in> set matrix_X. length r = d"
  then show "np_mean_axis0 matrix_X' = np_mean_axis0 matrix_X"
    by (rule np_mean_axis0_perm)
next
  assume "\<forall>t. rel_option (\<lambda>l' l. mset l' = mset l) (test_dir' t) (test_dir t)"
    and "run_evaluation centroid_dir test_dir = Inl e"
  then show "run_evaluation centroid_dir test_dir' = Inl e"
    by (rule run_evaluation_perm(1))
next
  assume "\<forall>t. rel_option (\<lambda>l' l. mset l' = mset l) (test_dir' t) (test_dir t)"
    and "run_evaluation centroid_dir test_dir = Inr (Missing_Centroid c)"
  then show "run_evaluation centroid_dir test_dir' = Inr (Missing_Centroid c)"
    by (rule run_evaluation_perm(2))
next
  assume "\<forall>t. rel_option (\<lambda>l' l. mset l' = mset l) (test_dir' t) (test_dir t)"
    and "run_evaluation centroid_dir test_dir = Inr (Completed rep)"
  then show "\<exists>rep'. run_evaluation centroid_dir test_dir' = Inr (Completed rep')
               \<and> confusion_files rep' = confusion_files rep
               \<and> accuracy_summary rep' = accuracy_summary rep
               \<and> mset (detailed_predictions rep') = mset (detailed_predictions rep)"
    by (rule run_evaluation_perm(3))
qed

lemma collect_has_error: "Inl e \<in> set R \<Longrightarrow> \<exists>e'. collect R = Inl e'"
proof (cases "collect R")
  case (Inl e')
  then show ?thesis by blast
next
  case (Inr rows)
  assume "Inl e \<in> set R"
  with collect_Inr [OF Inr] show ?thesis by auto
qed

lemma tie_row_total_any: "\<exists>row. row_of tie_centroids t (f, U8 [1, 0]) = Inr row"
  by (rule row_of_total
        [where dv = "\<lambda>m k. case k of
             pizza_slice \<Rightarrow> (case m of Euclidean \<Rightarrow> sqrt 2 | Manhattan \<Rightarrow> 2 | Cosine \<Rightarrow> 1)
           | whole_pizza \<Rightarrow> 0 | pizza_box \<Rightarrow> 0"])
     (simp add: tie_dists)

lemma load_tie_centroids: "load_centroids tie_centroids CLASSES Map.empty = Inr tie_centroids"
proof -
  have "load_centroids tie_centroids CLASSES Map.empty \<noteq> Inl c" for c
    by (rule load_centroids_total) (simp add: tie_centroids_def)
  then obtain cs where l: "load_centroids tie_centroids CLASSES Map.empty = Inr cs"
    by (cases "load_centroids tie_centroids CLASSES Map.empty") auto
  from load_centroids_Inr(1) [OF l] l show ?thesis by simp
qed

lemma two_sample_run: "\<exists>rep. run_evaluation tie_centroids two_sample_dir = Inr (Completed rep)"
proof -
  have s: "class_samples two_sample_dir t
             = (if t = whole_pizza then [(''a.npy'', U8 [1, 0]), (''b.npy'', U8 [1, 0])] else [])" for t
    by (simp add: class_samples_def two_sample_dir_def endswith_def)
  have "\<exists>final. eval_classes tie_centroids two_sample_dir CLASSES init_state = Inr final"
    by (rule eval_classes_total) (auto simp: s tie_row_total_any split: if_splits)
  then obtain final where
    e: "eval_classes tie_centroids two_sample_dir CLASSES init_state = Inr final" ..
  have "total_images final = 2"
    using final_counts(2) [OF e] by (simp add: s CLASSES_def)
  then have "results final \<noteq> []"
    using final_counts(5) [OF e] by auto
  from run_evaluation_run [OF _ e this] show ?thesis
    by (auto simp: tie_centroids_def)
qed

lemma bad_sample_run: "\<exists>e. run_evaluation tie_centroids bad_sample_dir = Inl e"
proof -
  have s: "class_samples bad_sample_dir whole_pizza = [(''a.npy'', U8 [1, 0]), (''b.npy'', U8 [1, 2, 3])]"
    by (simp add: class_samples_def bad_sample_dir_def endswith_def)
  have bad: "row_of tie_centroids whole_pizza (''b.npy'', U8 [1, 2, 3]) = Inl ValueError"
    by (simp add: row_of_def CLASSES_def tie_centroids_def d_euclidean_def np_sub_def broadcast_def)
  have "Inl ValueError \<in> set (all_rows tie_centroids bad_sample_dir CLASSES)"
    by (simp add: all_rows_def CLASSES_def s bad)
  from collect_has_error [OF this] obtain e where
    "collect (all_rows tie_centroids bad_sample_dir CLASSES) = Inl e" ..
  then have "run_evaluation tie_centroids bad_sample_dir = Inl e"
    by (simp add: run_evaluation_rows load_tie_centroids)
  then show ?thesis ..
qed

theorem order_invariance_witness:
  "mset [[3, 6], [1, 2 :: real]] = mset [[1, 2], [3, 6]]
   \<and> np_mean_axis0 [[3, 6], [1, 2]] = np_mean_axis0 [[1, 2], [3, 6]]
   \<and> (\<exists>rep rep'. run_evaluation tie_centroids two_sample_dir = Inr (Completed rep)
          \<and> run_evaluation tie_centroids two_sample_dir_swapped = Inr (Completed rep')
          \<and> confusion_files rep' = confusion_files rep
          \<and> accuracy_summary rep' = accuracy_summary rep)
   \<and> run_evaluation Map.empty two_sample_dir_swapped = Inr (Missing_Centroid pizza_slice)
   \<and> (\<exists>e. run_evaluation tie_centroids bad_sample_dir = Inl e
          \<and> run_evaluation tie_centroids bad_sample_dir_swapped = Inl e)"
proof -
  have h1: "mset [[3, 6], [1, 2 :: real]] = mset [[1, 2], [3, 6]]" by simp
  have h2: "\<forall>r \<in> set [[1, 2], [3, 6 :: real]]. length r = 2" by simp
  have p2: "\<forall>t. rel_option (\<lambda>l' l. mset l' = mset l) (two_sample_dir_swapped t) (two_sample_dir t)"
    by (simp add: two_sample_dir_def two_sample_dir_swapped_def)
  have pb: "\<forall>t. rel_option (\<lambda>l' l. mset l' = mset l) (bad_sample_dir_swapped t) (bad_sample_dir t)"
    by (simp add: bad_sample_dir_def bad_sample_dir_swapped_def)
  from two_sample_run obtain rep where
    r: "run_evaluation tie_centroids two_sample_dir = Inr (Completed rep)" ..
  from bad_sample_run obtain e where
    b: "run_evaluation tie_centroids bad_sample_dir = Inl e" ..
  have m: "run_evaluation Map.empty two_sample_dir = Inr (Missing_Centroid pizza_slice)"
    by (simp add: run_evaluation_def CLASSES_def)
  note mean = order_invariance [where matrix_X' = "[[3, 6], [1, 2]]" and matrix_X = "[[1, 2], [3, 6]]"
      and d = 2, THEN conjunct1, THEN mp, OF h1, THEN mp, OF h2]
  note completed = order_invariance [where test_dir' = two_sample_dir_swapped and test_dir = two_sample_dir
      and centroid_dir = tie_centroids and rep = rep,
      THEN conjunct2, THEN mp, OF p2, THEN conjunct2, THEN conjunct2, THEN mp, OF r]
  note missing = order_invariance [where test_dir' = two_sample_dir_swapped
      and test_dir = two_sample_dir and centroid_dir = Map.empty and c = pizza_slice,
      THEN conjunct2, THEN mp, OF p2, THEN conjunct2, THEN conjunct1, THEN mp, OF m]
  note failing = order_invariance [where test_dir' = bad_sample_dir_swapped
      and test_dir = bad_sample_dir and centroid_dir = tie_centroids and e = e,
      THEN conjunct2, THEN mp, OF pb, THEN conjunct1, THEN mp, OF b]
  from completed obtain rep' where
    r': "run_evaluation tie_centroids two_sample_dir_swapped = Inr (Completed rep')"
        "confusion_files rep' = confusion_files rep" "accuracy_summary rep' = accuracy_summary rep"
    by blast
  show ?thesis
    using h1 mean r r' missing b failing
    by (intro conjI exI [of _ rep] exI [of _ rep'] exI [of _ e]) assumption+
qed

end
